theory Spec2Isabelle
  imports Complex_Main "HOL-Library.Char_ord" "HOL-Library.List_Lexorder"
begin

section \<open>The ingestion and query pipelines of \<^verbatim>\<open>research_tool/rag.py\<close>\<close>

text \<open>
  The module keeps two process-wide globals (\<^verbatim>\<open>llm\<close>, \<^verbatim>\<open>vector_store\<close>), drives external
  collaborators (document loaders, a text splitter, a Chroma collection, a chat model)
  and reports progress through Python generators. The embedding below makes all of
  this explicit:
  \<^item> the globals, the persisted collection, the temporary files on disk and a log of
    the calls made to the collaborators form a record \<open>world\<close>;
  \<^item> what the collaborators answer is a record \<open>env\<close> of functions, so every theorem
    holds for whatever they answer;
  \<^item> a generator is the list of its yields, each paired with the world at the moment
    the generator is suspended there, with the way it ends (exhausted, or an exception)
    and the world at its end;
  \<^item> a Python \<^verbatim>\<open>str\<close> is the list of its UTF-8 bytes: comparing byte lists
    lexicographically is comparing code points lexicographically, which is what
    \<^verbatim>\<open>sorted\<close> does on strings.
\<close>

subsection \<open>Data\<close>

type_synonym path = string

datatype error =
    RuntimeError string
  | AttributeError string
  | ValueError string
  | OSError string
  | Exception string

text \<open>
  A langchain \<^verbatim>\<open>Document\<close>: its text and its metadata dictionary (keys in insertion
  order).
\<close>

record document =
  page_content :: string
  metadata :: "(string \<times> string) list"

text \<open>An uploaded file: \<^verbatim>\<open>uploaded_file.name\<close> and \<^verbatim>\<open>uploaded_file.getvalue()\<close>.\<close>

record uploaded_file =
  name :: string
  getvalue :: string

text \<open>The loaders \<^verbatim>\<open>process_documents\<close> chooses from, each built on the temporary path.\<close>

datatype loader =
    PyPDFLoader path
  | Docx2txtLoader path
  | TextLoader path
  | UnstructuredFileLoader path

record splitter =
  separators :: "string list"
  chunk_size :: nat
  chunk_overlap :: nat

datatype chat_model = ChatGroq string rat nat

datatype embeddings = HuggingFaceEmbeddings string

datatype chroma = Chroma string embeddings path

text \<open>
  What \<^verbatim>\<open>llm.invoke\<close> hands back: a message with a \<^verbatim>\<open>content\<close> attribute, or an object
  without one (\<^verbatim>\<open>getattr(response, "content", "")\<close> allows for it). Python's \<^verbatim>\<open>None\<close> is
  the \<open>None\<close> of \<open>response option\<close>.
\<close>

datatype response = AIMessage string | NoContent

text \<open>The calls to the collaborators, logged in the order they are made.\<close>

datatype call =
    ResetCollection
  | URLLoad "string list"
  | FileLoad loader
  | SplitDocuments splitter "document list"
  | AddDocuments "document list" "string list"
  | RetrieverInvoke string
  | LLMInvoke string

record world =
  llm :: "chat_model option"
  vector_store :: "chroma option"
  collection :: "(string \<times> document) list"
  tmp_files :: "path list"
  uuid_calls :: nat
  calls :: "call list"

text \<open>
  The collaborators. None of them is code of this repository; each is a parameter:
  \<^item> \<open>getenv\<close>: \<^verbatim>\<open>os.getenv\<close>;
  \<^item> \<open>str_lower\<close>: \<^verbatim>\<open>str.lower\<close>;
  \<^item> \<open>url_load\<close>: \<^verbatim>\<open>UnstructuredURLLoader(urls=urls).load()\<close>;
  \<^item> \<open>NamedTemporaryFile\<close>: the path \<^verbatim>\<open>tempfile.NamedTemporaryFile(delete=False, suffix=...)\<close>
    creates, given the temporary files present, or the exception it raises;
  \<^item> \<open>tmp_write\<close>: the exception \<^verbatim>\<open>tmp_file.write(...)\<close> raises, if any;
  \<^item> \<open>load\<close>: building the loader on the temporary file and \<^verbatim>\<open>loader.load()\<close>; the
    second argument is the content of the file the loader reads;
  \<^item> \<open>unlink\<close>: the exception \<^verbatim>\<open>os.unlink\<close> raises, if any;
  \<^item> \<open>default_chunk_overlap\<close>: the default of the keyword argument \<^verbatim>\<open>chunk_overlap\<close> of
    \<^verbatim>\<open>RecursiveCharacterTextSplitter\<close>, declared in langchain_text_splitters;
  \<^item> \<open>split_documents\<close>: \<^verbatim>\<open>text_splitter.split_documents\<close>;
  \<^item> \<open>add_documents_error\<close>: the exception \<^verbatim>\<open>vector_store.add_documents(docs, ids=uuids)\<close>
    raises, if any (the Chroma client rejects an empty batch with a \<^verbatim>\<open>ValueError\<close>);
  \<^item> \<open>uuid4\<close>: the identifier the k-th call of \<^verbatim>\<open>str(uuid4())\<close> of the process returns;
  \<^item> \<open>retrieve\<close>: \<^verbatim>\<open>vector_store.as_retriever().invoke(query)\<close> on the collection;
  \<^item> \<open>invoke\<close>: \<^verbatim>\<open>llm.invoke(messages)\<close>.
  Exceptions of the collaborators are modelled where the source handles them (inside
  the \<^verbatim>\<open>try\<close> blocks of \<^verbatim>\<open>process_documents\<close>) and for \<^verbatim>\<open>add_documents\<close>, whose exception
  ends an ingestion run; the other calls are taken to return.
\<close>

record env =
  getenv :: "string \<Rightarrow> string option"
  str_lower :: "string \<Rightarrow> string"
  url_load :: "string list \<Rightarrow> document list"
  NamedTemporaryFile :: "path list \<Rightarrow> string \<Rightarrow> error + path"
  tmp_write :: "path \<Rightarrow> string \<Rightarrow> error option"
  load :: "loader \<Rightarrow> string \<Rightarrow> error + document list"
  unlink :: "path \<Rightarrow> error option"
  default_chunk_overlap :: nat
  split_documents :: "splitter \<Rightarrow> document list \<Rightarrow> document list"
  add_documents_error :: "document list \<Rightarrow> string list \<Rightarrow> error option"
  uuid4 :: "nat \<Rightarrow> string"
  retrieve :: "(string \<times> document) list \<Rightarrow> string \<Rightarrow> document list"
  invoke :: "chat_model \<Rightarrow> string \<Rightarrow> response option"

subsection \<open>Status messages\<close>

text \<open>One constructor for each \<^verbatim>\<open>yield\<close> of the module; \<open>render\<close> gives the text.\<close>

datatype status =
    InitializingComponents
  | ResettingVectorStore
  | LoadingData
  | SplittingText
  | AddChunks
  | DoneAddingDocs
  | Loading string
  | Loaded string nat
  | WarningNoContent string
  | ErrorLoading string error
  | NoDocumentsLoaded
  | SplittingDocuments nat
  | CreatedChunks nat
  | AddingChunks
  | Done nat

definition digit :: "nat \<Rightarrow> char" where
  "digit d = char_of (48 + d)"

fun str_nat :: "nat \<Rightarrow> string" where
  "str_nat n = (if n < 10 then [digit n] else str_nat (n div 10) @ [digit (n mod 10)])"

text \<open>\<^verbatim>\<open>str(e)\<close> of an exception: its message.\<close>

fun str_error :: "error \<Rightarrow> string" where
  "str_error (RuntimeError m) = m"
| "str_error (AttributeError m) = m"
| "str_error (ValueError m) = m"
| "str_error (OSError m) = m"
| "str_error (Exception m) = m"

text \<open>The UTF-8 bytes of U+2705, U+274C and U+26A0 U+FE0F.\<close>

definition check_mark :: string where
  "check_mark = [CHR 0xE2, CHR 0x9C, CHR 0x85]"

definition cross_mark :: string where
  "cross_mark = [CHR 0xE2, CHR 0x9D, CHR 0x8C]"

definition warning_sign :: string where
  "warning_sign = [CHR 0xE2, CHR 0x9A, CHR 0xA0, CHR 0xEF, CHR 0xB8, CHR 0x8F]"

fun render :: "status \<Rightarrow> string" where
  "render InitializingComponents = ''Initializing Components''"
| "render ResettingVectorStore = ''Resetting vector store...'' @ check_mark"
| "render LoadingData = ''Loading data...'' @ check_mark"
| "render SplittingText = ''Splitting text into chunks...'' @ check_mark"
| "render AddChunks = ''Add chunks to vector database...'' @ check_mark"
| "render DoneAddingDocs = ''Done adding docs to vector database...'' @ check_mark"
| "render (Loading n) = ''Loading '' @ n @ ''...''"
| "render (Loaded n k) =
     check_mark @ '' Loaded '' @ n @ '' ('' @ str_nat k @ '' pages/chunks)''"
| "render (WarningNoContent n) =
     warning_sign @ '' Warning: '' @ n @ '' loaded but contains no content''"
| "render (ErrorLoading n e) =
     cross_mark @ '' Error loading '' @ n @ '': '' @ str_error e"
| "render NoDocumentsLoaded =
     cross_mark @ '' No documents were successfully loaded. Please check file formats and try again.''"
| "render (SplittingDocuments k) =
     ''Splitting '' @ str_nat k @ '' document(s) into chunks...'' @ check_mark"
| "render (CreatedChunks k) = ''Created '' @ str_nat k @ '' chunks from documents''"
| "render AddingChunks = ''Adding chunks to vector database...'' @ check_mark"
| "render (Done k) =
     check_mark @ '' Done! Added '' @ str_nat k
       @ '' chunks to vector database. You can now ask questions.''"

subsection \<open>Generators\<close>

text \<open>
  A generator that has been run: \<open>yields\<close> lists what it yields, each with the world at
  that suspension point; \<open>outcome\<close> is how a \<^verbatim>\<open>for\<close> loop over it ends, with \<open>None\<close> when the
  generator is exhausted and \<open>Some e\<close> when it raises \<open>e\<close> after its last yield; \<open>final\<close> is
  the world at that moment.
\<close>

record run =
  yields :: "(status \<times> world) list"
  outcome :: "error option"
  final :: world

definition statuses :: "run \<Rightarrow> status list" where
  "statuses r = map fst (yields r)"

text \<open>
  A consumer that takes \<open>n\<close> statuses and then drops the generator leaves it suspended
  at its \<open>n\<close>-th yield: no statement after that yield is executed (closing a generator
  raises \<^verbatim>\<open>GeneratorExit\<close> there, which \<^verbatim>\<open>except Exception\<close> does not catch, and the module
  has no \<^verbatim>\<open>finally\<close>). With \<open>n = 0\<close> the generator never starts. \<open>None\<close>: the generator
  has fewer than \<open>n\<close> yields.
\<close>

definition stop_after :: "nat \<Rightarrow> world \<Rightarrow> run \<Rightarrow> world option" where
  "stop_after n w0 r =
     (if n = 0 then Some w0
      else if n \<le> length (yields r) then Some (snd (yields r ! (n - 1)))
      else None)"

subsection \<open>Constants and \<^verbatim>\<open>initialize_components\<close>\<close>

definition CHUNK_SIZE :: nat where
  "CHUNK_SIZE = 1000"

definition EMBEDDING_MODEL :: string where
  "EMBEDDING_MODEL = ''sentence-transformers/all-MiniLM-L6-v2''"

text \<open>\<^verbatim>\<open>Path(__file__).parent / "resources/vectorstore"\<close>, relative to the module's directory.\<close>

definition VECTORSTORE_DIR :: path where
  "VECTORSTORE_DIR = ''resources/vectorstore''"

definition COLLECTION_NAME :: string where
  "COLLECTION_NAME = ''real_estate''"

definition initialize_components :: "env \<Rightarrow> world \<Rightarrow> world" where
  "initialize_components env w =
     (let w1 = (if llm w = None
                then w\<lparr>llm := Some (ChatGroq
                         (case getenv env ''GROQ_MODEL'' of
                            None \<Rightarrow> ''llama-3.3-70b-versatile''
                          | Some m \<Rightarrow> m)
                         (9 / 10) 500)\<rparr>
                else w)
      in if vector_store w1 = None
         then w1\<lparr>vector_store := Some (Chroma COLLECTION_NAME
                    (HuggingFaceEmbeddings EMBEDDING_MODEL) VECTORSTORE_DIR)\<rparr>
         else w1)"

text \<open>A process that has just started: both globals are \<^verbatim>\<open>None\<close>.\<close>

definition fresh_process :: "world \<Rightarrow> bool" where
  "fresh_process w = (llm w = None \<and> vector_store w = None)"

subsection \<open>The knowledge store\<close>

text \<open>
  Modelled from the spec: the Chroma collection behind \<^verbatim>\<open>vector_store\<close> is a third-party
  store. Section 4.3 gives its contract: \<^verbatim>\<open>reset\<close> discards every stored chunk, \<^verbatim>\<open>add\<close>
  stores each chunk under its generated identifier and does nothing on empty input.
  The collection is the list of (identifier, chunk) pairs in the order they were added.
  What the contract leaves out: the client may refuse a batch. When \<^verbatim>\<open>add_documents\<close>
  raises (\<open>add_documents_error\<close>), the call was made and nothing was stored, since the
  client validates a batch before it writes.
\<close>

definition log_call :: "call \<Rightarrow> world \<Rightarrow> world" where
  "log_call c w = w\<lparr>calls := calls w @ [c]\<rparr>"

definition reset_collection :: "world \<Rightarrow> world" where
  "reset_collection w = log_call ResetCollection (w\<lparr>collection := []\<rparr>)"

definition add_documents ::
  "env \<Rightarrow> document list \<Rightarrow> string list \<Rightarrow> world \<Rightarrow> error option \<times> world" where
  "add_documents env docs ids w =
     (case add_documents_error env docs ids of
        Some e \<Rightarrow> (Some e, log_call (AddDocuments docs ids) w)
      | None \<Rightarrow>
          (None,
           log_call (AddDocuments docs ids) (w\<lparr>collection := collection w @ zip ids docs\<rparr>)))"

text \<open>\<^verbatim>\<open>[str(uuid4()) for _ in range(n)]\<close>: the next \<open>n\<close> identifiers of the process.\<close>

definition fresh_uuids :: "env \<Rightarrow> nat \<Rightarrow> world \<Rightarrow> string list \<times> world" where
  "fresh_uuids env n w =
     (map (uuid4 env) [uuid_calls w ..< uuid_calls w + n],
      w\<lparr>uuid_calls := uuid_calls w + n\<rparr>)"

subsection \<open>The text splitter\<close>

text \<open>
  The constructor call: a keyword argument that is not passed (\<open>None\<close>) takes the
  library's default.
\<close>

definition RecursiveCharacterTextSplitter ::
  "env \<Rightarrow> string list \<Rightarrow> nat \<Rightarrow> nat option \<Rightarrow> splitter" where
  "RecursiveCharacterTextSplitter env seps sz overlap =
     \<lparr>separators = seps, chunk_size = sz,
      chunk_overlap = (case overlap of None \<Rightarrow> default_chunk_overlap env | Some n \<Rightarrow> n)\<rparr>"

definition NL :: string where
  "NL = [CHR 0x0A]"

definition SEPARATORS :: "string list" where
  "SEPARATORS = [NL @ NL, NL, ''.'', '' '']"

subsection \<open>\<^verbatim>\<open>process_urls\<close>\<close>

definition process_urls :: "env \<Rightarrow> string list \<Rightarrow> world \<Rightarrow> run" where
  "process_urls env urls w0 =
     (let w1 = initialize_components env w0;
          w2 = reset_collection w1;
          data = url_load env urls;
          w3 = log_call (URLLoad urls) w2;
          text_splitter = RecursiveCharacterTextSplitter env SEPARATORS CHUNK_SIZE None;
          docs = split_documents env text_splitter data;
          w4 = log_call (SplitDocuments text_splitter data) w3;
          (uuids, w5) = fresh_uuids env (length docs) w4;
          (raised, w6) = add_documents env docs uuids w5;
          start =
            [(InitializingComponents, w0),
             (ResettingVectorStore, w1),
             (LoadingData, w2),
             (SplittingText, w3),
             (AddChunks, w4)]
      in case raised of
           Some e \<Rightarrow> \<lparr>yields = start, outcome = Some e, final = w6\<rparr>
         | None \<Rightarrow>
             \<lparr>yields = start @ [(DoneAddingDocs, w6)], outcome = None, final = w6\<rparr>)"

subsection \<open>\<^verbatim>\<open>process_documents\<close>\<close>

text \<open>
  \<^verbatim>\<open>Path(uploaded_file.name).suffix\<close>, for POSIX paths. pathlib splits the path at \<^verbatim>\<open>/\<close> and
  drops the empty and the \<^verbatim>\<open>.\<close> components; the name is the last component left (empty
  when none is). The suffix is \<^verbatim>\<open>name[i:]\<close> for \<^verbatim>\<open>i = name.rfind('.')\<close> when
  \<^verbatim>\<open>0 < i < len(name) - 1\<close>, and empty otherwise.
\<close>

fun split_on :: "char \<Rightarrow> string \<Rightarrow> string list" where
  "split_on c [] = [[]]"
| "split_on c (x # xs) =
     (if x = c then [] # split_on c xs
      else (case split_on c xs of [] \<Rightarrow> [[x]] | p # ps \<Rightarrow> (x # p) # ps))"

definition path_name :: "string \<Rightarrow> string" where
  "path_name p =
     (case rev (filter (\<lambda>part. part \<noteq> [] \<and> part \<noteq> ''.'') (split_on CHR ''/'' p)) of
        [] \<Rightarrow> []
      | n # parts \<Rightarrow> n)"

definition path_suffix :: "string \<Rightarrow> string" where
  "path_suffix p =
     (let n = path_name p;
          ext = rev (takeWhile (\<lambda>c. c \<noteq> CHR ''.'') (rev n))
      in if CHR ''.'' \<in> set n \<and> ext \<noteq> [] \<and> length ext + 1 < length n
         then CHR ''.'' # ext else [])"

definition select_loader :: "string \<Rightarrow> path \<Rightarrow> loader" where
  "select_loader file_extension tmp_path =
     (if file_extension = ''.pdf'' then PyPDFLoader tmp_path
      else if file_extension \<in> set [''.docx'', ''.doc''] then Docx2txtLoader tmp_path
      else if file_extension = ''.txt'' then TextLoader tmp_path
      else UnstructuredFileLoader tmp_path)"

text \<open>The locals of the loop over the files, and the world.\<close>

record loop_state =
  all_docs :: "document list"
  tmp_paths :: "path list"
  now :: world

text \<open>
  The body of \<^verbatim>\<open>for uploaded_file in uploaded_files\<close>: the \<^verbatim>\<open>try\<close> block, every exception
  in it caught by \<^verbatim>\<open>except Exception\<close> and yielded as a status. A temporary file is on
  disk as soon as \<^verbatim>\<open>NamedTemporaryFile\<close> returns (\<^verbatim>\<open>delete=False\<close>); its path is recorded
  in \<^verbatim>\<open>tmp_paths\<close> only after the write. What the handler prints to standard output is
  left out.
\<close>

definition load_one ::
  "env \<Rightarrow> uploaded_file \<Rightarrow> loop_state \<Rightarrow> (status \<times> world) list \<times> loop_state" where
  "load_one env uploaded_file st =
     (let file_extension = str_lower env (path_suffix (name uploaded_file));
          w = now st
      in case NamedTemporaryFile env (tmp_files w) file_extension of
           Inl e \<Rightarrow> ([(ErrorLoading (name uploaded_file) e, w)], st)
         | Inr tmp_path \<Rightarrow>
             let w1 = w\<lparr>tmp_files := tmp_files w @ [tmp_path]\<rparr>
             in case tmp_write env tmp_path (getvalue uploaded_file) of
                  Some e \<Rightarrow>
                    ([(ErrorLoading (name uploaded_file) e, w1)], st\<lparr>now := w1\<rparr>)
                | None \<Rightarrow>
                    let st1 = st\<lparr>tmp_paths := tmp_paths st @ [tmp_path]\<rparr>;
                        loader = select_loader file_extension tmp_path;
                        w2 = log_call (FileLoad loader) w1
                    in case load env loader (getvalue uploaded_file) of
                         Inl e \<Rightarrow>
                           ([(Loading (name uploaded_file), w1),
                             (ErrorLoading (name uploaded_file) e, w2)],
                            st1\<lparr>now := w2\<rparr>)
                       | Inr docs \<Rightarrow>
                           if docs \<noteq> []
                           then ([(Loading (name uploaded_file), w1),
                                  (Loaded (name uploaded_file) (length docs), w2)],
                                 st1\<lparr>all_docs := all_docs st @ docs, now := w2\<rparr>)
                           else ([(Loading (name uploaded_file), w1),
                                  (WarningNoContent (name uploaded_file), w2)],
                                 st1\<lparr>now := w2\<rparr>))"

fun load_files ::
  "env \<Rightarrow> uploaded_file list \<Rightarrow> loop_state \<Rightarrow> (status \<times> world) list \<times> loop_state" where
  "load_files env [] st = ([], st)"
| "load_files env (uploaded_file # uploaded_files) st =
     (let (ys, st1) = load_one env uploaded_file st;
          (yss, st2) = load_files env uploaded_files st1
      in (ys @ yss, st2))"

text \<open>
  The loop over \<^verbatim>\<open>tmp_paths\<close>: \<^verbatim>\<open>os.unlink\<close> when \<^verbatim>\<open>os.path.exists\<close>; an exception is caught
  and printed, and the file stays.
\<close>

fun clean_up :: "env \<Rightarrow> path list \<Rightarrow> world \<Rightarrow> world" where
  "clean_up env [] w = w"
| "clean_up env (tmp_path # ps) w =
     clean_up env ps
       (if tmp_path \<in> set (tmp_files w)
        then (case unlink env tmp_path of
                None \<Rightarrow> w\<lparr>tmp_files := removeAll tmp_path (tmp_files w)\<rparr>
              | Some e \<Rightarrow> w)
        else w)"

definition process_documents :: "env \<Rightarrow> uploaded_file list \<Rightarrow> world \<Rightarrow> run" where
  "process_documents env uploaded_files w0 =
     (let w1 = initialize_components env w0;
          w2 = reset_collection w1;
          (ys, st) = load_files env uploaded_files \<lparr>all_docs = [], tmp_paths = [], now = w2\<rparr>;
          w3 = clean_up env (tmp_paths st) (now st);
          start = [(InitializingComponents, w0), (ResettingVectorStore, w1)] @ ys
      in if all_docs st = []
         then \<lparr>yields = start @ [(NoDocumentsLoaded, w3)], outcome = None, final = w3\<rparr>
         else
           let text_splitter =
                 RecursiveCharacterTextSplitter env SEPARATORS CHUNK_SIZE (Some 200);
               split_docs = split_documents env text_splitter (all_docs st);
               w4 = log_call (SplitDocuments text_splitter (all_docs st)) w3;
               (uuids, w5) = fresh_uuids env (length split_docs) w4;
               (raised, w6) = add_documents env split_docs uuids w5;
               chunking =
                 [(SplittingDocuments (length (all_docs st)), w3),
                  (CreatedChunks (length split_docs), w4),
                  (AddingChunks, w4)]
           in case raised of
                Some e \<Rightarrow> \<lparr>yields = start @ chunking, outcome = Some e, final = w6\<rparr>
              | None \<Rightarrow>
                  \<lparr>yields = start @ chunking @ [(Done (length split_docs), w6)],
                   outcome = None, final = w6\<rparr>)"

subsection \<open>\<^verbatim>\<open>generate_answer\<close>\<close>

text \<open>\<^verbatim>\<open>sep.join(xs)\<close>.\<close>

fun join :: "string \<Rightarrow> string list \<Rightarrow> string" where
  "join sep [] = []"
| "join sep [x] = x"
| "join sep (x # y # ys) = x @ sep @ join sep (y # ys)"

text \<open>
  \<^verbatim>\<open>prompt.format_messages(context=..., question=...)\<close>: the template with its two fields
  filled in, the content of the one message sent to the model.
\<close>

definition format_messages :: "string \<Rightarrow> string \<Rightarrow> string" where
  \<open>format_messages context question =
     NL @ ''        You are a helpful research assistant.'' @ NL
     @ ''        Answer the question using only the provided context.'' @ NL
     @ ''        If the answer is not contained in the context, reply:'' @ NL
     @ ''        "I don't have enough information to answer this question."'' @ NL
     @ NL
     @ ''        Context:'' @ NL
     @ ''        '' @ context @ NL
     @ NL
     @ ''        Question: '' @ question @ NL
     @ NL
     @ ''        Answer (concise):'' @ NL
     @ ''        ''\<close>

text \<open>\<^verbatim>\<open>getattr(response, "content", "") if response is not None else ""\<close>.\<close>

fun answer_of :: "response option \<Rightarrow> string" where
  "answer_of None = []"
| "answer_of (Some (AIMessage content)) = content"
| "answer_of (Some NoContent) = []"

text \<open>
  The loop that fills the set \<^verbatim>\<open>source_urls\<close>: \<^verbatim>\<open>if metadata and "source" in metadata\<close>.
\<close>

fun collect_sources :: "document list \<Rightarrow> string set \<Rightarrow> string set" where
  "collect_sources [] source_urls = source_urls"
| "collect_sources (doc # docs) source_urls =
     collect_sources docs
       (if metadata doc \<noteq> []
        then (case map_of (metadata doc) ''source'' of
                None \<Rightarrow> source_urls
              | Some s \<Rightarrow> insert s source_urls)
        else source_urls)"

text \<open>\<^verbatim>\<open>"\n".join(sorted(source_urls)) if source_urls else ""\<close>.\<close>

definition sources_of :: "document list \<Rightarrow> string" where
  "sources_of docs =
     (let source_urls = collect_sources docs {}
      in if source_urls \<noteq> {} then join NL (sorted_list_of_set source_urls) else [])"

definition context_text :: "document list \<Rightarrow> string" where
  "context_text docs = join (NL @ NL) (map page_content docs)"

definition not_initialized :: string where
  "not_initialized =
     ''Vector database is not initialized. Please process URLs or documents first.''"

text \<open>
  The result is the pair \<^verbatim>\<open>(answer, sources)\<close> or the exception raised, with the world
  the call leaves. \<^verbatim>\<open>llm.invoke\<close> on a global that is still \<^verbatim>\<open>None\<close> is Python's
  \<^verbatim>\<open>AttributeError\<close>.
\<close>

definition generate_answer ::
  "env \<Rightarrow> string \<Rightarrow> world \<Rightarrow> (error + string \<times> string) \<times> world" where
  "generate_answer env query w0 =
     (let w1 = (if vector_store w0 = None then initialize_components env w0 else w0)
      in if vector_store w1 = None then (Inl (RuntimeError not_initialized), w1)
         else
           let docs = retrieve env (collection w1) query;
               w2 = log_call (RetrieverInvoke query) w1;
               messages = format_messages (context_text docs) query
           in case llm w2 of
                None \<Rightarrow>
                  (Inl (AttributeError
                     ''NoneType object has no attribute invoke''), w2)
              | Some m \<Rightarrow>
                  let response = invoke env m messages;
                      w3 = log_call (LLMInvoke messages) w2
                  in (Inr (answer_of response, sources_of docs), w3))"

subsection \<open>Vocabulary of the properties\<close>

text \<open>The calls that change the collection.\<close>

fun mutates_store :: "call \<Rightarrow> bool" where
  "mutates_store ResetCollection = True"
| "mutates_store (AddDocuments docs ids) = True"
| "mutates_store c = False"

text \<open>
  The sources string as the specification words it: the distinct \<^verbatim>\<open>source\<close> values of the
  chunks, sorted, joined with newlines. \<open>source_of\<close> is the \<^verbatim>\<open>source\<close> entry of a chunk's
  metadata, if it has one.
\<close>

definition source_of :: "document \<Rightarrow> string option" where
  "source_of doc = (if metadata doc \<noteq> [] then map_of (metadata doc) ''source'' else None)"

definition source_values :: "document list \<Rightarrow> string list" where
  "source_values docs = List.map_filter source_of docs"

definition spec_sources :: "document list \<Rightarrow> string" where
  "spec_sources docs = join NL (sort (remdups (source_values docs)))"

text \<open>
  The locals after the loop over the files of \<^verbatim>\<open>process_documents\<close> (\<^verbatim>\<open>all_docs\<close>,
  \<^verbatim>\<open>tmp_paths\<close> and the world), and what the loop yields.
\<close>

definition after_loading :: "env \<Rightarrow> uploaded_file list \<Rightarrow> world \<Rightarrow> loop_state" where
  "after_loading env uploaded_files w0 =
     snd (load_files env uploaded_files
       \<lparr>all_docs = [], tmp_paths = [], now = reset_collection (initialize_components env w0)\<rparr>)"

definition loading_yields :: "env \<Rightarrow> uploaded_file list \<Rightarrow> world \<Rightarrow> (status \<times> world) list" where
  "loading_yields env uploaded_files w0 =
     fst (load_files env uploaded_files
       \<lparr>all_docs = [], tmp_paths = [], now = reset_collection (initialize_components env w0)\<rparr>)"

text \<open>The loader \<^verbatim>\<open>process_documents\<close> builds for a file saved at path \<open>p\<close>.\<close>

definition loader_for :: "env \<Rightarrow> uploaded_file \<Rightarrow> path \<Rightarrow> loader" where
  "loader_for env f p = select_loader (str_lower env (path_suffix (name f))) p"

text \<open>
  What the collaborators do with one file, wherever its temporary copy is put: the
  copy can be saved; the loader raises; the loader returns documents; the loader
  raises or returns nothing.
\<close>

definition saves :: "env \<Rightarrow> uploaded_file \<Rightarrow> bool" where
  "saves env f =
     ((\<forall>present. \<exists>p. NamedTemporaryFile env present (str_lower env (path_suffix (name f)))
          = Inr p) \<and>
      (\<forall>p. tmp_write env p (getvalue f) = None))"

definition loader_raises :: "env \<Rightarrow> uploaded_file \<Rightarrow> bool" where
  "loader_raises env f = (\<forall>p. \<exists>e. load env (loader_for env f p) (getvalue f) = Inl e)"

definition loader_returns :: "env \<Rightarrow> uploaded_file \<Rightarrow> bool" where
  "loader_returns env f =
     (\<forall>p. \<exists>docs. docs \<noteq> [] \<and> load env (loader_for env f p) (getvalue f) = Inr docs)"

definition no_content :: "env \<Rightarrow> uploaded_file \<Rightarrow> bool" where
  "no_content env f =
     (\<forall>p. case load env (loader_for env f p) (getvalue f) of
            Inl e \<Rightarrow> True
          | Inr docs \<Rightarrow> docs = [])"

text \<open>The calls of the chunking and storage stages, and the loader calls.\<close>

fun chunking_call :: "call \<Rightarrow> bool" where
  "chunking_call (SplitDocuments s docs) = True"
| "chunking_call (AddDocuments docs ids) = True"
| "chunking_call c = False"

fun file_load :: "call \<Rightarrow> loader option" where
  "file_load (FileLoad l) = Some l"
| "file_load c = None"

text \<open>The splitters that \<^verbatim>\<open>split_documents\<close> was called on, in order.\<close>

fun split_config :: "call \<Rightarrow> splitter option" where
  "split_config (SplitDocuments s docs) = Some s"
| "split_config c = None"

definition split_configs :: "call list \<Rightarrow> splitter list" where
  "split_configs cs = List.map_filter split_config cs"

text \<open>
  The file a status reports the outcome of: loaded, loaded without content, or failed.
\<close>

fun outcome_file :: "status \<Rightarrow> string option" where
  "outcome_file (Loaded n k) = Some n"
| "outcome_file (WarningNoContent n) = Some n"
| "outcome_file (ErrorLoading n e) = Some n"
| "outcome_file s = None"

text \<open>
  The overlap of two adjacent chunks: the length of the longest end of the first that
  is a beginning of the second.
\<close>

definition overlaps_by :: "nat \<Rightarrow> string \<Rightarrow> string \<Rightarrow> bool" where
  "overlaps_by k a b = (k \<le> length a \<and> k \<le> length b \<and> drop (length a - k) a = take k b)"

fun longest_overlap :: "nat \<Rightarrow> string \<Rightarrow> string \<Rightarrow> nat" where
  "longest_overlap 0 a b = 0"
| "longest_overlap (Suc k) a b =
     (if overlaps_by (Suc k) a b then Suc k else longest_overlap k a b)"

definition overlap :: "string \<Rightarrow> string \<Rightarrow> nat" where
  "overlap a b = longest_overlap (min (length a) (length b)) a b"

subsection \<open>A splitter to run on\<close>

text \<open>
  \<^verbatim>\<open>RecursiveCharacterTextSplitter\<close> of langchain_text_splitters, for the concrete runs
  below: literal separators that are kept at the start of the piece that follows them
  (\<^verbatim>\<open>keep_separator=True\<close>), chunks stripped of surrounding white space, lengths counted
  in characters. \<open>split_keep\<close> is \<^verbatim>\<open>_split_text_with_regex\<close>, \<open>merge_splits\<close> is
  \<^verbatim>\<open>_merge_splits\<close> (pieces are joined until the next one would pass the chunk size; the
  chunk is emitted and pieces are dropped from its front until at most the overlap
  is left), \<open>split_text_rec\<close> is \<^verbatim>\<open>_split_text\<close>, which tries the separators in order and
  splits an oversized piece again with the separators that remain.
\<close>

fun occurs :: "string \<Rightarrow> string \<Rightarrow> bool" where
  "occurs sep [] = (sep = [])"
| "occurs sep (x # xs) = (take (length sep) (x # xs) = sep \<or> occurs sep xs)"

fun scan :: "string \<Rightarrow> nat \<Rightarrow> string \<Rightarrow> string \<Rightarrow> string list" where
  "scan sep skip piece [] = [piece]"
| "scan sep skip piece (x # xs) =
     (if 0 < skip then scan sep (skip - 1) (piece @ [x]) xs
      else if take (length sep) (x # xs) = sep then piece # scan sep (length sep - 1) [x] xs
      else scan sep 0 (piece @ [x]) xs)"

definition split_keep :: "string \<Rightarrow> string \<Rightarrow> string list" where
  "split_keep sep text =
     filter (\<lambda>piece. piece \<noteq> [])
       (if sep = [] then map (\<lambda>c. [c]) text else scan sep 0 [] text)"

definition is_space :: "char \<Rightarrow> bool" where
  "is_space c = (c \<in> set [CHR '' '', CHR 0x09, CHR 0x0A, CHR 0x0B, CHR 0x0C, CHR 0x0D])"

definition strip :: "string \<Rightarrow> string" where
  "strip s = rev (dropWhile is_space (rev (dropWhile is_space s)))"

definition join_docs :: "string \<Rightarrow> string list \<Rightarrow> string list" where
  "join_docs sep pieces = (let text = strip (join sep pieces) in if text = [] then [] else [text])"

fun shrink :: "splitter \<Rightarrow> nat \<Rightarrow> nat \<Rightarrow> string list \<Rightarrow> nat \<Rightarrow> string list \<times> nat" where
  "shrink cfg sep_len len [] tot = ([], tot)"
| "shrink cfg sep_len len (p # ps) tot =
     (if chunk_overlap cfg < tot \<or>
         (chunk_size cfg < tot + len + sep_len \<and> 0 < tot)
      then shrink cfg sep_len len ps (tot - (length p + (if ps \<noteq> [] then sep_len else 0)))
      else (p # ps, tot))"

primrec merge_loop ::
  "splitter \<Rightarrow> string \<Rightarrow> string list \<Rightarrow> string list \<Rightarrow> nat \<Rightarrow> string list" where
  "merge_loop cfg sep [] = (\<lambda>current_doc tot. join_docs sep current_doc)"
| "merge_loop cfg sep (d # splits) = (\<lambda>current_doc tot.
     if chunk_size cfg < tot + length d + (if current_doc \<noteq> [] then length sep else 0)
        \<and> current_doc \<noteq> []
     then
       (let kept = fst (shrink cfg (length sep) (length d) current_doc tot);
            left = snd (shrink cfg (length sep) (length d) current_doc tot)
        in join_docs sep current_doc
           @ merge_loop cfg sep splits (kept @ [d])
               (left + length d + (if kept \<noteq> [] then length sep else 0)))
     else merge_loop cfg sep splits (current_doc @ [d])
            (tot + length d + (if current_doc \<noteq> [] then length sep else 0)))"

definition merge_splits :: "splitter \<Rightarrow> string \<Rightarrow> string list \<Rightarrow> string list" where
  "merge_splits cfg sep splits = merge_loop cfg sep splits [] 0"

fun assemble ::
  "splitter \<Rightarrow> (string \<Rightarrow> string list) \<Rightarrow> string list \<Rightarrow> string list \<Rightarrow> string list" where
  "assemble cfg deeper [] good_splits =
     (if good_splits \<noteq> [] then merge_splits cfg [] good_splits else [])"
| "assemble cfg deeper (s # splits) good_splits =
     (if length s < chunk_size cfg then assemble cfg deeper splits (good_splits @ [s])
      else (if good_splits \<noteq> [] then merge_splits cfg [] good_splits else [])
           @ deeper s @ assemble cfg deeper splits [])"

primrec split_text_rec :: "splitter \<Rightarrow> string list \<Rightarrow> string \<Rightarrow> string list" where
  "split_text_rec cfg [] = (\<lambda>text. [text])"
| "split_text_rec cfg (sep # seps) = (\<lambda>text.
     if sep \<noteq> [] \<and> \<not> occurs sep text \<and> seps \<noteq> [] then split_text_rec cfg seps text
     else
       let new_separators = (if sep \<noteq> [] \<and> occurs sep text then seps else [])
       in assemble cfg
            (\<lambda>s. if new_separators = [] then [s] else split_text_rec cfg seps s)
            (split_keep sep text) [])"

definition split_text :: "splitter \<Rightarrow> string \<Rightarrow> string list" where
  "split_text cfg text = split_text_rec cfg (separators cfg) text"

definition langchain_split_documents :: "splitter \<Rightarrow> document list \<Rightarrow> document list" where
  "langchain_split_documents cfg docs =
     concat (map (\<lambda>doc. map (\<lambda>chunk. \<lparr>page_content = chunk, metadata = metadata doc\<rparr>)
                           (split_text cfg (page_content doc))) docs)"

subsection \<open>Concrete collaborators and inputs\<close>

text \<open>
  One environment to run the pipelines on: \<^verbatim>\<open>lower\<close> maps the ASCII capitals, the URL
  loader returns one document per URL, a file loader raises on an empty file and returns
  one document otherwise, the splitter returns its input, the store refuses an empty
  batch as the Chroma client does (the message stands for the client's), the retriever
  returns the whole collection, and the library default of \<^verbatim>\<open>chunk_overlap\<close> is the 200
  of langchain_text_splitters.
\<close>

definition lower_char :: "char \<Rightarrow> char" where
  "lower_char c =
     (if CHR ''A'' \<le> c \<and> c \<le> CHR ''Z'' then char_of (of_char c + (32::nat)) else c)"

definition ascii_lower :: "string \<Rightarrow> string" where
  "ascii_lower s = map lower_char s"

fun loader_path :: "loader \<Rightarrow> path" where
  "loader_path (PyPDFLoader p) = p"
| "loader_path (Docx2txtLoader p) = p"
| "loader_path (TextLoader p) = p"
| "loader_path (UnstructuredFileLoader p) = p"

definition demo_env :: env where
  "demo_env =
     \<lparr>getenv = (\<lambda>v. None),
      str_lower = ascii_lower,
      url_load = map (\<lambda>u. \<lparr>page_content = ''text of '' @ u, metadata = [(''source'', u)]\<rparr>),
      NamedTemporaryFile =
        (\<lambda>present sfx. Inr (''/tmp/tmp'' @ replicate (length present) CHR ''x'' @ sfx)),
      tmp_write = (\<lambda>p c. None),
      load = (\<lambda>l c. if c = [] then Inl (Exception ''cannot parse'')
                     else Inr [\<lparr>page_content = c, metadata = [(''source'', loader_path l)]\<rparr>]),
      unlink = (\<lambda>p. None),
      default_chunk_overlap = 200,
      split_documents = (\<lambda>s docs. docs),
      add_documents_error =
        (\<lambda>docs ids. if ids = [] then Some (ValueError ''Expected IDs to be a non-empty list'')
                     else None),
      uuid4 = (\<lambda>k. replicate (Suc k) CHR ''u''),
      retrieve = (\<lambda>c q. map snd c),
      invoke = (\<lambda>m msgs.
        Some (AIMessage ''I do not have enough information to answer this question.''))\<rparr>"

definition fresh_world :: world where
  "fresh_world =
     \<lparr>llm = None, vector_store = None, collection = [], tmp_files = [],
      uuid_calls = 0, calls = []\<rparr>"

definition doc_a :: document where
  "doc_a = \<lparr>page_content = ''alpha'', metadata = [(''source'', ''https://example.com/a'')]\<rparr>"

definition doc_b :: document where
  "doc_b =
     \<lparr>page_content = ''beta'',
      metadata = [(''page'', ''3''), (''source'', ''https://example.com/b'')]\<rparr>"

definition doc_c :: document where
  "doc_c = \<lparr>page_content = ''gamma'', metadata = []\<rparr>"

text \<open>The world after a URL ingestion that was consumed to its end.\<close>

definition ingested_world :: world where
  "ingested_world =
     final (process_urls demo_env [''https://example.com/b'', ''https://example.com/a'']
       fresh_world)"

text \<open>A retriever that returns the collection in the opposite order.\<close>

definition reversed_env :: env where
  "reversed_env = demo_env\<lparr>retrieve := (\<lambda>c q. rev (map snd c))\<rparr>"

text \<open>
  A URL loader that finds nothing to load, with a store that refuses an empty batch
  and with one that accepts it.
\<close>

definition offline_env :: env where
  "offline_env = demo_env\<lparr>url_load := (\<lambda>urls. [])\<rparr>"

definition lenient_env :: env where
  "lenient_env = offline_env\<lparr>add_documents_error := (\<lambda>docs ids. None)\<rparr>"

text \<open>A disk with no room: every write of a temporary file raises.\<close>

definition full_disk_env :: env where
  "full_disk_env =
     demo_env\<lparr>tmp_write := (\<lambda>p c. Some (OSError ''No space left on device''))\<rparr>"

text \<open>Uploaded files: a text file, and two files the loaders cannot read.\<close>

definition notes_txt :: uploaded_file where
  "notes_txt = \<lparr>name = ''notes.txt'', getvalue = ''hello''\<rparr>"

definition scan_png :: uploaded_file where
  "scan_png = \<lparr>name = ''scan.png'', getvalue = []\<rparr>"

definition empty_pdf :: uploaded_file where
  "empty_pdf = \<lparr>name = ''paper.PDF'', getvalue = []\<rparr>"

text \<open>
  A text of 1100 characters, three words separated by single spaces, served by the URL
  loader and uploaded as a text file, with the splitter above.
\<close>

definition word_a :: string where
  "word_a = replicate 800 CHR ''a''"

definition word_b :: string where
  "word_b = replicate 149 CHR ''b''"

definition word_c :: string where
  "word_c = replicate 149 CHR ''c''"

definition three_words :: string where
  "three_words = word_a @ '' '' @ word_b @ '' '' @ word_c"

definition words_txt :: uploaded_file where
  "words_txt = \<lparr>name = ''words.txt'', getvalue = three_words\<rparr>"

definition words_env :: env where
  "words_env =
     demo_env
       \<lparr>url_load := map (\<lambda>u. \<lparr>page_content = three_words, metadata = [(''source'', u)]\<rparr>),
        split_documents := langchain_split_documents\<rparr>"

section \<open>Properties\<close>

subsection \<open>\<^verbatim>\<open>initialize_components\<close>\<close>

lemma vector_store_initialize_components:
  "vector_store (initialize_components env w) \<noteq> None"
  by (simp add: initialize_components_def Let_def)

lemma llm_initialize_components:
  "llm (initialize_components env w) \<noteq> None"
  by (simp add: initialize_components_def Let_def)

lemma collection_initialize_components:
  "collection (initialize_components env w) = collection w"
  by (simp add: initialize_components_def Let_def)

lemma calls_initialize_components:
  "calls (initialize_components env w) = calls w"
  by (simp add: initialize_components_def Let_def)

lemma tmp_files_initialize_components:
  "tmp_files (initialize_components env w) = tmp_files w"
  by (simp add: initialize_components_def Let_def)

lemma uuid_calls_initialize_components:
  "uuid_calls (initialize_components env w) = uuid_calls w"
  by (simp add: initialize_components_def Let_def)

subsection \<open>Querying a process that has ingested nothing\<close>

text \<open>
  The guard \<^verbatim>\<open>if vector_store is None: raise RuntimeError(...)\<close> comes after
  \<^verbatim>\<open>if vector_store is None: initialize_components()\<close>, which always sets the global:
  the exception is never raised, in any world and for any query.
\<close>

lemma generate_answer_never_uninitialized:
  "fst (generate_answer env query w) \<noteq> Inl (RuntimeError m)"
  by (cases "vector_store w")
    (auto simp: generate_answer_def Let_def vector_store_initialize_components
        split: option.splits)

lemma generate_answer_fresh_process_returns:
  assumes "fresh_process w"
  shows "\<exists>answer sources. fst (generate_answer env query w) = Inr (answer, sources)"
proof -
  from assms have "vector_store w = None"
    by (simp add: fresh_process_def)
  moreover obtain m where "llm (initialize_components env w) = Some m"
    using llm_initialize_components [of env w] by auto
  ultimately show ?thesis
    using vector_store_initialize_components [of env w]
    by (auto simp: generate_answer_def Let_def log_call_def)
qed

text \<open>
  C1. The claim: in a fresh process, \<^verbatim>\<open>generate_answer\<close> fails with the uninitialized-store
  error and never returns an answer computed over an empty collection. The code at a
  fresh process with an empty collection: it creates the store, retrieves nothing,
  and returns the model's answer with an empty sources string.
\<close>

theorem generate_answer_fresh_process_answers:
  "fresh_process fresh_world \<and>
   fst (generate_answer demo_env ''anything'' fresh_world) =
     Inr (''I do not have enough information to answer this question.'', [])"
  by (simp add: generate_answer_def fresh_process_def fresh_world_def demo_env_def
        initialize_components_def log_call_def sources_of_def context_text_def Let_def)

subsection \<open>The world a URL ingestion leaves\<close>

lemma ingested_world_eq:
  "ingested_world =
     \<lparr>llm = Some (ChatGroq ''llama-3.3-70b-versatile'' (9 / 10) 500),
      vector_store = Some (Chroma ''real_estate''
        (HuggingFaceEmbeddings ''sentence-transformers/all-MiniLM-L6-v2'')
        ''resources/vectorstore''),
      collection =
        [(''u'', \<lparr>page_content = ''text of https://example.com/b'',
                  metadata = [(''source'', ''https://example.com/b'')]\<rparr>),
         (''uu'', \<lparr>page_content = ''text of https://example.com/a'',
                   metadata = [(''source'', ''https://example.com/a'')]\<rparr>)],
      tmp_files = [], uuid_calls = 2,
      calls =
        [ResetCollection,
         URLLoad [''https://example.com/b'', ''https://example.com/a''],
         SplitDocuments
           \<lparr>separators = SEPARATORS, chunk_size = 1000, chunk_overlap = 200\<rparr>
           [\<lparr>page_content = ''text of https://example.com/b'',
              metadata = [(''source'', ''https://example.com/b'')]\<rparr>,
            \<lparr>page_content = ''text of https://example.com/a'',
              metadata = [(''source'', ''https://example.com/a'')]\<rparr>],
         AddDocuments
           [\<lparr>page_content = ''text of https://example.com/b'',
              metadata = [(''source'', ''https://example.com/b'')]\<rparr>,
            \<lparr>page_content = ''text of https://example.com/a'',
              metadata = [(''source'', ''https://example.com/a'')]\<rparr>]
           [''u'', ''uu'']]\<rparr>"
  by (simp add: ingested_world_def process_urls_def demo_env_def fresh_world_def
     initialize_components_def reset_collection_def log_call_def add_documents_def fresh_uuids_def
     RecursiveCharacterTextSplitter_def Let_def CHUNK_SIZE_def COLLECTION_NAME_def
     EMBEDDING_MODEL_def VECTORSTORE_DIR_def upt_rec)

subsection \<open>The sources string\<close>

lemma collect_sources_eq:
  "collect_sources docs S = S \<union> set (source_values docs)"
  by (induction docs arbitrary: S)
     (auto simp: source_values_def source_of_def List.map_filter_simps split: option.splits)

lemma sources_of_spec: "sources_of docs = spec_sources docs"
proof (cases "source_values docs = []")
  case True
  then show ?thesis
    by (simp add: sources_of_def spec_sources_def collect_sources_eq)
next
  case False
  then show ?thesis
    by (simp add: sources_of_def spec_sources_def collect_sources_eq
          sorted_list_of_set_sort_remdups)
qed

lemma set_source_values:
  "set (source_values docs) = {s. \<exists>d \<in> set docs. source_of d = Some s}"
  by (induction docs) (auto simp: source_values_def List.map_filter_simps split: option.splits)

lemma sources_of_set: "sources_of docs = (let S = set (source_values docs) in if S \<noteq> {} then join NL (sorted_list_of_set S) else [])"
  by (simp add: sources_of_def collect_sources_eq)


lemma sources_of_sorted_deduplicated:
  "sources_of docs = join NL (sort (remdups (source_values docs))) \<and>
   sorted_wrt (<) (sort (remdups (source_values docs))) \<and>
   set (sort (remdups (source_values docs))) = {s. \<exists>d \<in> set docs. source_of d = Some s} \<and>
   (\<forall>docs'. set docs' = set docs \<longrightarrow> sources_of docs' = sources_of docs) \<and>
   (source_values docs = [] \<longrightarrow> sources_of docs = [])"
proof -
  have 1: "sources_of docs = join NL (sort (remdups (source_values docs)))"
    using sources_of_spec [of docs] by (simp add: spec_sources_def)
  have 2: "sorted_wrt (<) (sort (remdups (source_values docs)))"
    by (simp add: strict_sorted_iff)
  have 3: "set (sort (remdups (source_values docs))) = {s. \<exists>d \<in> set docs. source_of d = Some s}"
    by (simp add: set_source_values)
  have 4: "sources_of docs' = sources_of docs" if "set docs' = set docs" for docs'
  proof -
    from that have "set (source_values docs') = set (source_values docs)"
      by (simp add: set_source_values)
    then show ?thesis by (simp add: sources_of_set)
  qed
  have 5: "sources_of docs = []" if "source_values docs = []"
    using that 1 by simp
  from 1 2 3 4 5 show ?thesis by blast
qed

subsection \<open>What \<^verbatim>\<open>generate_answer\<close> returns\<close>

lemma generate_answer_returns:
  assumes "w1 = (if vector_store w = None then initialize_components env w else w)"
    and "llm w1 = Some m"
    and "docs = retrieve env (collection w) query"
    and "messages = format_messages (context_text docs) query"
  shows "generate_answer env query w =
      (Inr (answer_of (invoke env m messages), sources_of docs),
       log_call (LLMInvoke messages) (log_call (RetrieverInvoke query) w1))"
proof -
  have init: "vector_store w1 \<noteq> None"
    using assms(1) vector_store_initialize_components [of env w] by auto
  have coll: "collection w1 = collection w"
    using assms(1) by (simp add: collection_initialize_components)
  show ?thesis
    using assms init coll
    by (auto simp: generate_answer_def Let_def log_call_def)
qed

lemma generate_answer_Inr_sources:
  assumes "fst (generate_answer env query w) = Inr (answer, sources)"
  shows "sources = sources_of (retrieve env (collection w) query)"
proof -
  let ?w1 = "if vector_store w = None then initialize_components env w else w"
  have coll: "collection ?w1 = collection w"
    by (simp add: collection_initialize_components)
  show ?thesis
  proof (cases "llm ?w1")
    case None
    with assms show ?thesis
      using vector_store_initialize_components [of env w]
      by (auto simp: generate_answer_def Let_def log_call_def split: if_splits)
  next
    case (Some m)
    from generate_answer_returns [OF refl Some refl refl, of query] assms
    show ?thesis by simp
  qed
qed

text \<open>
  C5. For every call of \<^verbatim>\<open>generate_answer\<close> that returns, the sources string it returns is
  the sorted list of the distinct \<^verbatim>\<open>source\<close> values of the retrieved chunks joined with
  newlines: the joined list is strictly increasing (sorted, no duplicate) and holds
  exactly the \<^verbatim>\<open>source\<close> values of the chunks; any other call whose retrieval yields the
  same chunks, in whatever order, returns the same string; the string is empty when no
  chunk carries a \<^verbatim>\<open>source\<close>.
\<close>

theorem generate_answer_sources:
  assumes "fst (generate_answer env query w) = Inr (answer, sources)"
    and "docs = retrieve env (collection w) query"
  shows "sources = join NL (sort (remdups (source_values docs))) \<and>
         sorted_wrt (<) (sort (remdups (source_values docs))) \<and>
         set (sort (remdups (source_values docs))) =
           {s. \<exists>d \<in> set docs. source_of d = Some s} \<and>
         (\<forall>env' query' w' answer' sources'.
            fst (generate_answer env' query' w') = Inr (answer', sources') \<longrightarrow>
            set (retrieve env' (collection w') query') = set docs \<longrightarrow>
            sources' = sources) \<and>
         (source_values docs = [] \<longrightarrow> sources = [])"
proof -
  have s: "sources = sources_of docs"
    using generate_answer_Inr_sources [OF assms(1)] assms(2) by simp
  note p = sources_of_sorted_deduplicated [of docs]
  have o: "sources' = sources"
    if "fst (generate_answer env' query' w') = Inr (answer', sources')"
      and "set (retrieve env' (collection w') query') = set docs"
    for env' query' w' answer' sources'
  proof -
    from generate_answer_Inr_sources [OF that(1)]
    have "sources' = sources_of (retrieve env' (collection w') query')" .
    with p that(2) s show ?thesis by simp
  qed
  from s p o show ?thesis by blast
qed

lemma retrieved_ingested:
  "retrieve demo_env (collection ingested_world) query =
      [\<lparr>page_content = ''text of https://example.com/b'',
         metadata = [(''source'', ''https://example.com/b'')]\<rparr>,
       \<lparr>page_content = ''text of https://example.com/a'',
         metadata = [(''source'', ''https://example.com/a'')]\<rparr>]"
  by (simp add: ingested_world_eq) (simp add: demo_env_def)

lemma retrieved_reversed:
  "retrieve reversed_env (collection ingested_world) query =
      [\<lparr>page_content = ''text of https://example.com/a'',
         metadata = [(''source'', ''https://example.com/a'')]\<rparr>,
       \<lparr>page_content = ''text of https://example.com/b'',
         metadata = [(''source'', ''https://example.com/b'')]\<rparr>]"
  by (simp add: ingested_world_eq) (simp add: reversed_env_def demo_env_def)

lemma sorted_example_sources:
  "sort (remdups [''https://example.com/b'', ''https://example.com/a''])
      = [''https://example.com/a'', ''https://example.com/b'']"
  "sort (remdups [''https://example.com/a'', ''https://example.com/b''])
      = [''https://example.com/a'', ''https://example.com/b'']"
  by code_simp+

theorem generate_answer_sources_witness:
  "fst (generate_answer demo_env ''which?'' ingested_world) =
     Inr (''I do not have enough information to answer this question.'',
          ''https://example.com/a'' @ NL @ ''https://example.com/b'') \<and>
   fst (generate_answer reversed_env ''which?'' ingested_world) =
     Inr (''I do not have enough information to answer this question.'',
          ''https://example.com/a'' @ NL @ ''https://example.com/b'')"
proof -
  let ?m = "ChatGroq ''llama-3.3-70b-versatile'' (9 / 10) 500"
  let ?msg = "''I do not have enough information to answer this question.''"
  have h1: "ingested_world =
      (if vector_store ingested_world = None
       then initialize_components env ingested_world else ingested_world)" for env
    by (simp add: ingested_world_eq)
  have h2: "llm ingested_world = Some ?m"
    by (simp add: ingested_world_eq)
  have a: "fst (generate_answer demo_env ''which?'' ingested_world) =
      Inr (?msg, sources_of (retrieve demo_env (collection ingested_world) ''which?''))"
    using generate_answer_returns [OF h1 h2 refl refl, of demo_env "''which?''"]
    by (simp add: demo_env_def)
  have b: "fst (generate_answer reversed_env ''which?'' ingested_world) =
      Inr (?msg, sources_of (retrieve reversed_env (collection ingested_world) ''which?''))"
    using generate_answer_returns [OF h1 h2 refl refl, of reversed_env "''which?''"]
    by (simp add: reversed_env_def demo_env_def)
  from generate_answer_sources [OF a refl]
  have 1: "sources_of (retrieve demo_env (collection ingested_world) ''which?'') =
      ''https://example.com/a'' @ NL @ ''https://example.com/b''"
    by (simp add: retrieved_ingested source_values_def source_of_def List.map_filter_simps
          sorted_example_sources)
  from generate_answer_sources [OF b refl]
  have 2: "sources_of (retrieve reversed_env (collection ingested_world) ''which?'') =
      ''https://example.com/a'' @ NL @ ''https://example.com/b''"
    by (simp add: retrieved_reversed source_values_def source_of_def List.map_filter_simps
          sorted_example_sources)
  from a b 1 2 show ?thesis by simp
qed

subsection \<open>The prompt context and the answer\<close>

lemma join_Cons: "join sep (x # xs) = x @ concat (map (\<lambda>y. sep @ y) xs)"
  by (induction xs arbitrary: x) simp_all

text \<open>
  C8. For every query, the prompt sent to the model is the template filled with the
  texts of the retrieved chunks, in retrieval order, separated by blank lines (two
  newlines), and the answer returned is the content of the model's response, or the
  empty string when the response is \<^verbatim>\<open>None\<close> or has no content. The hypotheses name the
  world after the lazy initialisation, the model client in it, and the chunks
  retrieved.
\<close>

theorem generate_answer_context_and_answer:
  assumes "w1 = (if vector_store w = None then initialize_components env w else w)"
    and "llm w1 = Some m"
    and "docs = retrieve env (collection w) query"
    and "messages = format_messages (context_text docs) query"
  shows "fst (generate_answer env query w) =
           Inr (answer_of (invoke env m messages), sources_of docs) \<and>
         last (calls (snd (generate_answer env query w))) = LLMInvoke messages \<and>
         context_text docs =
           (case map page_content docs of
              [] \<Rightarrow> []
            | t # ts \<Rightarrow> t @ concat (map (\<lambda>x. NL @ NL @ x) ts)) \<and>
         answer_of (invoke env m messages) =
           (case invoke env m messages of
              None \<Rightarrow> []
            | Some NoContent \<Rightarrow> []
            | Some (AIMessage content) \<Rightarrow> content)"
proof -
  have gen: "generate_answer env query w =
      (Inr (answer_of (invoke env m messages), sources_of docs),
       log_call (LLMInvoke messages) (log_call (RetrieverInvoke query) w1))"
    using assms by (rule generate_answer_returns)
  have ctx: "context_text docs =
      (case map page_content docs of
         [] \<Rightarrow> []
       | t # ts \<Rightarrow> t @ concat (map (\<lambda>x. NL @ NL @ x) ts))"
    by (cases docs) (simp_all add: context_text_def join_Cons)
  have ans: "answer_of r =
      (case r of None \<Rightarrow> [] | Some NoContent \<Rightarrow> [] | Some (AIMessage content) \<Rightarrow> content)" for r
    by (cases r rule: answer_of.cases) simp_all
  show ?thesis
    using gen ctx ans by (simp add: log_call_def)
qed

theorem generate_answer_context_and_answer_witness:
  "fst (generate_answer demo_env ''which?'' ingested_world) =
     Inr (''I do not have enough information to answer this question.'',
          ''https://example.com/a'' @ NL @ ''https://example.com/b'') \<and>
   context_text (retrieve demo_env (collection ingested_world) ''which?'') =
     ''text of https://example.com/b'' @ NL @ NL @ ''text of https://example.com/a''"
proof -
  let ?docs = "retrieve demo_env (collection ingested_world) ''which?''"
  let ?m = "ChatGroq ''llama-3.3-70b-versatile'' (9 / 10) 500"
  have docs: "?docs =
      [\<lparr>page_content = ''text of https://example.com/b'',
         metadata = [(''source'', ''https://example.com/b'')]\<rparr>,
       \<lparr>page_content = ''text of https://example.com/a'',
         metadata = [(''source'', ''https://example.com/a'')]\<rparr>]"
    by (rule retrieved_ingested)
  have h1: "ingested_world =
      (if vector_store ingested_world = None
       then initialize_components demo_env ingested_world else ingested_world)"
    by (simp add: ingested_world_eq)
  have h2: "llm ingested_world = Some ?m"
    by (simp add: ingested_world_eq)
  have inv: "invoke demo_env ?m msgs =
      Some (AIMessage ''I do not have enough information to answer this question.'')" for msgs
    by (simp add: demo_env_def)
  have src: "sources_of ?docs = ''https://example.com/a'' @ NL @ ''https://example.com/b''"
    using sources_of_spec [of ?docs]
    by (simp add: docs spec_sources_def source_values_def source_of_def List.map_filter_simps
          sorted_example_sources)
  note t = generate_answer_context_and_answer
    [where w = ingested_world and env = demo_env and query = "''which?''", OF h1 h2 refl refl]
  from t inv src have 1: "fst (generate_answer demo_env ''which?'' ingested_world) =
     Inr (''I do not have enough information to answer this question.'',
          ''https://example.com/a'' @ NL @ ''https://example.com/b'')"
    by simp
  from t have 2: "context_text ?docs =
     ''text of https://example.com/b'' @ NL @ NL @ ''text of https://example.com/a''"
    by (simp add: docs)
  from 1 2 show ?thesis by blast
qed

subsection \<open>Queries leave the store alone\<close>

text \<open>
  C10. \<^verbatim>\<open>generate_answer\<close> never modifies the knowledge store: the collection (chunks,
  identifiers, metadata) is the same after the call as before, and the call makes no
  \<^verbatim>\<open>reset_collection\<close> and no \<^verbatim>\<open>add_documents\<close>.
\<close>

theorem generate_answer_store_unchanged:
  "collection (snd (generate_answer env query w)) = collection w \<and>
   filter mutates_store (calls (snd (generate_answer env query w))) =
     filter mutates_store (calls w)"
  by (cases "vector_store w")
    (auto simp: generate_answer_def Let_def log_call_def collection_initialize_components
        calls_initialize_components split: option.splits)

theorem generate_answer_store_unchanged_witness:
  "collection (snd (generate_answer demo_env ''which?'' ingested_world)) =
     [(''u'', \<lparr>page_content = ''text of https://example.com/b'',
               metadata = [(''source'', ''https://example.com/b'')]\<rparr>),
      (''uu'', \<lparr>page_content = ''text of https://example.com/a'',
                metadata = [(''source'', ''https://example.com/a'')]\<rparr>)] \<and>
   filter mutates_store (calls (snd (generate_answer demo_env ''which?'' ingested_world))) =
     filter mutates_store (calls ingested_world)"
  using generate_answer_store_unchanged [of demo_env "''which?''" ingested_world]
  by (simp add: ingested_world_eq)

subsection \<open>The loop over the uploaded files\<close>

lemma load_one_calls:
  "\<exists>ls. calls (now (snd (load_one env f st))) = calls (now st) @ map FileLoad ls"
proof -
  have a: "\<exists>ls. xs = xs @ map FileLoad ls" for xs :: "call list"
    by (rule exI [of _ "[]"]) simp
  have b: "\<exists>ls. xs @ [FileLoad l] = xs @ map FileLoad ls" for xs l
    by (rule exI [of _ "[l]"]) simp
  have c: "\<exists>ls. [FileLoad l] = map FileLoad ls" for l
    by (rule exI [of _ "[l]"]) simp
  show ?thesis
    by (simp add: load_one_def Let_def log_call_def a b c split: sum.splits option.splits)
qed

lemma load_files_calls:
  "\<exists>ls. calls (now (snd (load_files env fs st))) = calls (now st) @ map FileLoad ls"
proof (induction fs arbitrary: st)
  case Nil
  show ?case by (rule exI [of _ "[]"]) simp
next
  case (Cons f fs)
  obtain ys st1 where one: "load_one env f st = (ys, st1)" by (cases "load_one env f st")
  obtain yss st2 where rest: "load_files env fs st1 = (yss, st2)" by (cases "load_files env fs st1")
  from load_one_calls [of env f st] one obtain l1
    where c1: "calls (now st1) = calls (now st) @ map FileLoad l1" by auto
  from Cons.IH [of st1] rest obtain l2
    where c2: "calls (now st2) = calls (now st1) @ map FileLoad l2" by auto
  have "calls (now st2) = calls (now st) @ map FileLoad (l1 @ l2)"
    using c1 c2 by simp
  then have "\<exists>ls. calls (now st2) = calls (now st) @ map FileLoad ls" ..
  then show ?case using one rest by simp
qed

lemma load_one_frame:
  "collection (now (snd (load_one env f st))) = collection (now st) \<and>
   uuid_calls (now (snd (load_one env f st))) = uuid_calls (now st) \<and>
   llm (now (snd (load_one env f st))) = llm (now st) \<and>
   vector_store (now (snd (load_one env f st))) = vector_store (now st)"
  by (simp add: load_one_def Let_def log_call_def split: sum.splits option.splits)

lemma load_files_frame:
  "collection (now (snd (load_files env fs st))) = collection (now st) \<and>
   uuid_calls (now (snd (load_files env fs st))) = uuid_calls (now st) \<and>
   llm (now (snd (load_files env fs st))) = llm (now st) \<and>
   vector_store (now (snd (load_files env fs st))) = vector_store (now st)"
proof (induction fs arbitrary: st)
  case Nil
  show ?case by simp
next
  case (Cons f fs)
  obtain ys st1 where one: "load_one env f st = (ys, st1)" by (cases "load_one env f st")
  obtain yss st2 where rest: "load_files env fs st1 = (yss, st2)" by (cases "load_files env fs st1")
  from load_one_frame [of env f st] one Cons.IH [of st1] rest
  show ?case by simp
qed

lemma clean_up_tmp_files_only:
  "\<exists>fs. clean_up env ps w = w\<lparr>tmp_files := fs\<rparr>"
proof (induction ps arbitrary: w)
  case Nil
  show ?case by (rule exI [of _ "tmp_files w"]) simp
next
  case (Cons p ps)
  let ?w = "if p \<in> set (tmp_files w)
            then (case unlink env p of None \<Rightarrow> w\<lparr>tmp_files := removeAll p (tmp_files w)\<rparr>
                  | Some e \<Rightarrow> w)
            else w"
  have "\<exists>fs. ?w = w\<lparr>tmp_files := fs\<rparr>"
  proof (cases "p \<in> set (tmp_files w) \<and> unlink env p = None")
    case True
    then show ?thesis by auto
  next
    case False
    then have "?w = w" by (auto split: option.splits)
    then have "?w = w\<lparr>tmp_files := tmp_files w\<rparr>" by simp
    then show ?thesis by blast
  qed
  then obtain fs where w: "?w = w\<lparr>tmp_files := fs\<rparr>" by blast
  from Cons.IH [of ?w] obtain fs' where "clean_up env ps ?w = ?w\<lparr>tmp_files := fs'\<rparr>" by blast
  with w have "clean_up env (p # ps) w = w\<lparr>tmp_files := fs'\<rparr>" by simp
  then show ?case by blast
qed

lemma clean_up_frame:
  "collection (clean_up env ps w) = collection w \<and>
   calls (clean_up env ps w) = calls w \<and>
   uuid_calls (clean_up env ps w) = uuid_calls w"
proof -
  from clean_up_tmp_files_only [of env ps w] obtain fs
    where "clean_up env ps w = w\<lparr>tmp_files := fs\<rparr>" by blast
  then show ?thesis by simp
qed

text \<open>How a document run ends, in terms of the locals after the loop.\<close>

lemma process_documents_outcome:
  "outcome (process_documents env files w0) =
     (let st = after_loading env files w0;
          chunks = split_documents env
            (RecursiveCharacterTextSplitter env SEPARATORS CHUNK_SIZE (Some 200)) (all_docs st)
      in if all_docs st = [] then None
         else add_documents_error env chunks
                (map (uuid4 env) [uuid_calls w0 ..< uuid_calls w0 + length chunks]))"
proof -
  obtain ys st where lf: "load_files env files
       \<lparr>all_docs = [], tmp_paths = [],
          now = reset_collection (initialize_components env w0)\<rparr> = (ys, st)"
    by (cases "load_files env files
       \<lparr>all_docs = [], tmp_paths = [],
          now = reset_collection (initialize_components env w0)\<rparr>")
  have u: "uuid_calls (now st) = uuid_calls w0"
    using load_files_frame [of env files "\<lparr>all_docs = [], tmp_paths = [],
          now = reset_collection (initialize_components env w0)\<rparr>"] lf
    by (simp add: reset_collection_def log_call_def uuid_calls_initialize_components)
  show ?thesis
    using lf u
    by (simp add: process_documents_def after_loading_def Let_def add_documents_def
          fresh_uuids_def log_call_def clean_up_frame split: option.splits)
qed

lemma process_documents_final:
  "final (process_documents env files w0) =
     (let st = after_loading env files w0;
          w3 = clean_up env (tmp_paths st) (now st)
      in if all_docs st = [] then w3
         else
           let text_splitter = RecursiveCharacterTextSplitter env SEPARATORS CHUNK_SIZE (Some 200);
               split_docs = split_documents env text_splitter (all_docs st);
               w4 = log_call (SplitDocuments text_splitter (all_docs st)) w3
           in snd (add_documents env split_docs
                (fst (fresh_uuids env (length split_docs) w4))
                (snd (fresh_uuids env (length split_docs) w4))))"
  by (simp add: process_documents_def after_loading_def Let_def add_documents_def
        split: prod.splits option.splits)

lemma process_documents_statuses:
  "statuses (process_documents env files w0) =
     [InitializingComponents, ResettingVectorStore]
     @ map fst (loading_yields env files w0)
     @ (let st = after_loading env files w0
        in if all_docs st = [] then [NoDocumentsLoaded]
           else
             let n = length (split_documents env
                       (RecursiveCharacterTextSplitter env SEPARATORS CHUNK_SIZE (Some 200))
                       (all_docs st))
             in [SplittingDocuments (length (all_docs st)), CreatedChunks n, AddingChunks]
                @ (if outcome (process_documents env files w0) = None then [Done n] else []))"
  by (simp add: process_documents_def after_loading_def loading_yields_def statuses_def Let_def
        add_documents_def split: prod.splits option.splits)

subsection \<open>What an ingestion run leaves\<close>

lemma map_filter_append:
  "List.map_filter g (xs @ ys) = List.map_filter g xs @ List.map_filter g ys"
  by (simp add: List.map_filter_def)

lemma split_configs_append:
  "split_configs (xs @ ys) = split_configs xs @ split_configs ys"
  by (simp add: split_configs_def List.map_filter_def)

lemma split_configs_FileLoad:
  "split_configs (map FileLoad ls) = []"
  by (induction ls) (simp_all add: split_configs_def List.map_filter_simps)

lemma split_configs_simps:
  "split_configs [] = []"
  "split_configs (SplitDocuments s d # cs) = s # split_configs cs"
  "split_configs (ResetCollection # cs) = split_configs cs"
  "split_configs (URLLoad us # cs) = split_configs cs"
  "split_configs (AddDocuments ds ids # cs) = split_configs cs"
  "split_configs (FileLoad l # cs) = split_configs cs"
  by (simp_all add: split_configs_def List.map_filter_simps)

lemma process_urls_outcome:
  "outcome (process_urls env urls w) =
     (let chunks = split_documents env
            (RecursiveCharacterTextSplitter env SEPARATORS CHUNK_SIZE None) (url_load env urls)
      in add_documents_error env chunks
           (map (uuid4 env) [uuid_calls w ..< uuid_calls w + length chunks]))"
  by (simp add: process_urls_def Let_def reset_collection_def log_call_def add_documents_def
        fresh_uuids_def uuid_calls_initialize_components split: option.splits)

lemma process_urls_final:
  "final (process_urls env urls w) =
     (let text_splitter = RecursiveCharacterTextSplitter env SEPARATORS CHUNK_SIZE None;
          data = url_load env urls;
          chunks = split_documents env text_splitter data;
          ids = map (uuid4 env) [uuid_calls w ..< uuid_calls w + length chunks]
      in (initialize_components env w)
           \<lparr>collection := (if outcome (process_urls env urls w) = None then zip ids chunks else []),
            uuid_calls := uuid_calls w + length chunks,
            calls := calls w @ [ResetCollection, URLLoad urls,
                       SplitDocuments text_splitter data, AddDocuments chunks ids]\<rparr>)"
  by (simp add: process_urls_def Let_def reset_collection_def log_call_def add_documents_def
        fresh_uuids_def uuid_calls_initialize_components calls_initialize_components
        split: option.splits)

lemma process_urls_statuses:
  "statuses (process_urls env urls w) =
     [InitializingComponents, ResettingVectorStore, LoadingData, SplittingText, AddChunks]
     @ (if outcome (process_urls env urls w) = None then [DoneAddingDocs] else [])"
  by (simp add: process_urls_def Let_def statuses_def add_documents_def
        split: prod.splits option.splits)

lemma initialize_components_collection_update:
  "initialize_components env (w\<lparr>collection := old\<rparr>) =
     (initialize_components env w)\<lparr>collection := old\<rparr>"
  by (simp add: initialize_components_def Let_def)

lemma reset_forgets_collection:
  "reset_collection (initialize_components env (w\<lparr>collection := old\<rparr>)) =
     reset_collection (initialize_components env w)"
  by (simp add: initialize_components_collection_update reset_collection_def log_call_def)

lemma after_loading_calls:
  "\<exists>ls. calls (now (after_loading env files w)) = calls w @ ResetCollection # map FileLoad ls"
proof -
  let ?st = "\<lparr>all_docs = [], tmp_paths = [],
               now = reset_collection (initialize_components env w)\<rparr>"
  from load_files_calls [of env files ?st] obtain ls
    where "calls (now (snd (load_files env files ?st))) = calls (now ?st) @ map FileLoad ls"
    by blast
  then have "calls (now (after_loading env files w)) = calls w @ ResetCollection # map FileLoad ls"
    by (simp add: after_loading_def reset_collection_def log_call_def calls_initialize_components)
  then show ?thesis ..
qed

lemma after_loading_frame:
  "collection (now (after_loading env files w)) = [] \<and>
   uuid_calls (now (after_loading env files w)) = uuid_calls w"
  using load_files_frame [of env files "\<lparr>all_docs = [], tmp_paths = [],
               now = reset_collection (initialize_components env w)\<rparr>"]
  by (simp add: after_loading_def reset_collection_def log_call_def
        uuid_calls_initialize_components)

lemma process_documents_calls:
  "\<exists>ls. calls (final (process_documents env files w)) =
     calls w @ ResetCollection # map FileLoad ls @
       (let docs = all_docs (after_loading env files w);
            text_splitter = RecursiveCharacterTextSplitter env SEPARATORS CHUNK_SIZE (Some 200);
            chunks = split_documents env text_splitter docs
        in if docs = [] then []
           else [SplitDocuments text_splitter docs,
                 AddDocuments chunks
                   (map (uuid4 env) [uuid_calls w ..< uuid_calls w + length chunks])])"
proof -
  from after_loading_calls [of env files w] obtain ls
    where c: "calls (now (after_loading env files w)) = calls w @ ResetCollection # map FileLoad ls"
    by blast
  have "calls (final (process_documents env files w)) =
     calls w @ ResetCollection # map FileLoad ls @
       (let docs = all_docs (after_loading env files w);
            text_splitter = RecursiveCharacterTextSplitter env SEPARATORS CHUNK_SIZE (Some 200);
            chunks = split_documents env text_splitter docs
        in if docs = [] then []
           else [SplitDocuments text_splitter docs,
                 AddDocuments chunks
                   (map (uuid4 env) [uuid_calls w ..< uuid_calls w + length chunks])])"
    using c after_loading_frame [of env files w]
    by (simp add: process_documents_final Let_def clean_up_frame log_call_def add_documents_def
          fresh_uuids_def split: option.splits)
  then show ?thesis ..
qed

lemma process_documents_collection:
  "collection (final (process_documents env files w)) =
     (let docs = all_docs (after_loading env files w);
          chunks = split_documents env
            (RecursiveCharacterTextSplitter env SEPARATORS CHUNK_SIZE (Some 200)) docs
      in if outcome (process_documents env files w) = None
         then (if docs = [] then []
               else zip (map (uuid4 env) [uuid_calls w ..< uuid_calls w + length chunks]) chunks)
         else [])"
  using after_loading_frame [of env files w]
  by (simp add: process_documents_final process_documents_outcome Let_def clean_up_frame
        log_call_def add_documents_def fresh_uuids_def split: option.splits)

lemma after_loading_forgets_collection:
  "after_loading env files (w\<lparr>collection := old\<rparr>) = after_loading env files w"
  by (simp add: after_loading_def reset_forgets_collection)

lemma process_documents_forgets_collection:
  "final (process_documents env files (w\<lparr>collection := old\<rparr>)) =
     final (process_documents env files w)"
  by (simp add: process_documents_final after_loading_forgets_collection)

lemma process_urls_forgets_collection:
  "final (process_urls env urls (w\<lparr>collection := old\<rparr>)) = final (process_urls env urls w)"
  by (simp add: process_urls_final process_urls_outcome Let_def
        initialize_components_collection_update)

subsection \<open>Runs on the concrete inputs\<close>

lemma lower_txt: "ascii_lower (path_suffix ''notes.txt'') = ''.txt''"
  by code_simp

lemma lower_png: "ascii_lower (path_suffix ''scan.png'') = ''.png''"
  by code_simp

lemma lower_pdf: "ascii_lower (path_suffix ''paper.PDF'') = ''.pdf''"
  by code_simp

lemma lower_words: "ascii_lower (path_suffix ''words.txt'') = ''.txt''"
  by code_simp

lemma path_suffix_trailing_slash: "path_suffix ''a.txt/'' = ''.txt''"
  by code_simp

lemma after_loading_notes:
  assumes "tmp_files w = []"
  shows "all_docs (after_loading demo_env [notes_txt] w) =
           [\<lparr>page_content = ''hello'', metadata = [(''source'', ''/tmp/tmp.txt'')]\<rparr>]"
  using assms
  by (simp add: after_loading_def load_one_def notes_txt_def lower_txt select_loader_def
        demo_env_def Let_def reset_collection_def log_call_def tmp_files_initialize_components)

lemma after_loading_mixed:
  "tmp_paths (after_loading demo_env [scan_png, notes_txt] fresh_world) =
     [''/tmp/tmp.png'', ''/tmp/tmpx.txt'']"
  by (simp add: after_loading_def load_one_def notes_txt_def scan_png_def lower_txt lower_png
        select_loader_def demo_env_def fresh_world_def Let_def reset_collection_def log_call_def
        initialize_components_def)

lemma mixed_batch_statuses:
  "statuses (process_documents demo_env [scan_png, notes_txt] fresh_world) =
     [InitializingComponents, ResettingVectorStore,
      Loading ''scan.png'', ErrorLoading ''scan.png'' (Exception ''cannot parse''),
      Loading ''notes.txt'', Loaded ''notes.txt'' 1,
      SplittingDocuments 1, CreatedChunks 1, AddingChunks, Done 1]"
  by (simp add: process_documents_def statuses_def load_one_def notes_txt_def scan_png_def
        lower_txt lower_png select_loader_def demo_env_def fresh_world_def Let_def
        reset_collection_def log_call_def initialize_components_def add_documents_def
        fresh_uuids_def RecursiveCharacterTextSplitter_def)

subsection \<open>A URL run that loads nothing\<close>

text \<open>
  C9, as stated, has the run emit its terminal success status when the URL loader
  yields nothing. The run calls \<^verbatim>\<open>add_documents\<close> with zero chunks and no identifier; a
  store that refuses the empty batch, as the Chroma client does, raises there, after
  the fifth status, and the success status is never yielded.
\<close>

theorem empty_url_run_raises_in_add_documents:
  "url_load offline_env [''https://example.com/missing''] = [] \<and>
   statuses (process_urls offline_env [''https://example.com/missing''] fresh_world) =
     [InitializingComponents, ResettingVectorStore, LoadingData, SplittingText, AddChunks] \<and>
   outcome (process_urls offline_env [''https://example.com/missing''] fresh_world) =
     Some (ValueError ''Expected IDs to be a non-empty list'') \<and>
   DoneAddingDocs \<notin>
     set (statuses (process_urls offline_env [''https://example.com/missing''] fresh_world))"
  by (simp add: process_urls_statuses process_urls_outcome Let_def offline_env_def demo_env_def)

text \<open>
  C9, amended. \<^verbatim>\<open>process_urls\<close> has no empty-corpus check: when the URL loader yields no
  document (and the splitter, given no document, yields no chunk), the run still calls
  the splitter and \<^verbatim>\<open>add_documents\<close>, with zero chunks, stores nothing and yields no
  failure status. It yields its success status when that \<^verbatim>\<open>add_documents\<close> call returns;
  when the call raises, the exception ends the run after the fifth status.
\<close>

theorem process_urls_no_empty_corpus_check:
  assumes "url_load env urls = []"
    and "split_documents env (RecursiveCharacterTextSplitter env SEPARATORS CHUNK_SIZE None) [] = []"
  shows "statuses (process_urls env urls w) =
           [InitializingComponents, ResettingVectorStore, LoadingData, SplittingText, AddChunks]
           @ (if add_documents_error env [] [] = None then [DoneAddingDocs] else []) \<and>
         outcome (process_urls env urls w) = add_documents_error env [] [] \<and>
         calls (final (process_urls env urls w)) =
           calls w @ [ResetCollection, URLLoad urls,
                      SplitDocuments
                        (RecursiveCharacterTextSplitter env SEPARATORS CHUNK_SIZE None) [],
                      AddDocuments [] []] \<and>
         collection (final (process_urls env urls w)) = []"
  using assms by (simp add: process_urls_statuses process_urls_final process_urls_outcome Let_def)

theorem process_urls_no_empty_corpus_check_witness:
  "url_load lenient_env [''https://example.com/missing''] = [] \<and>
   statuses (process_urls lenient_env [''https://example.com/missing''] ingested_world) =
     [InitializingComponents, ResettingVectorStore, LoadingData, SplittingText, AddChunks,
      DoneAddingDocs] \<and>
   statuses (process_urls offline_env [''https://example.com/missing''] ingested_world) =
     [InitializingComponents, ResettingVectorStore, LoadingData, SplittingText, AddChunks] \<and>
   drop 4 (calls (final (process_urls offline_env [''https://example.com/missing'']
       ingested_world))) =
     [ResetCollection, URLLoad [''https://example.com/missing''],
      SplitDocuments \<lparr>separators = SEPARATORS, chunk_size = 1000, chunk_overlap = 200\<rparr> [],
      AddDocuments [] []] \<and>
   collection (final (process_urls offline_env [''https://example.com/missing'']
       ingested_world)) = []"
proof -
  have h1: "url_load offline_env [''https://example.com/missing''] = []"
    "url_load lenient_env [''https://example.com/missing''] = []"
    by (simp_all add: lenient_env_def offline_env_def)
  have h2: "split_documents offline_env
      (RecursiveCharacterTextSplitter offline_env SEPARATORS CHUNK_SIZE None) [] = []"
    "split_documents lenient_env
      (RecursiveCharacterTextSplitter lenient_env SEPARATORS CHUNK_SIZE None) [] = []"
    by (simp_all add: lenient_env_def offline_env_def demo_env_def)
  have s: "RecursiveCharacterTextSplitter offline_env SEPARATORS CHUNK_SIZE None =
      \<lparr>separators = SEPARATORS, chunk_size = 1000, chunk_overlap = 200\<rparr>"
    by (simp add: RecursiveCharacterTextSplitter_def offline_env_def demo_env_def CHUNK_SIZE_def)
  have e: "add_documents_error offline_env [] [] \<noteq> None"
    "add_documents_error lenient_env [] [] = None"
    by (simp_all add: lenient_env_def offline_env_def demo_env_def)
  have l: "length (calls ingested_world) = 4"
    by (simp add: ingested_world_eq)
  from process_urls_no_empty_corpus_check [OF h1(1) h2(1), of ingested_world]
    process_urls_no_empty_corpus_check [OF h1(2) h2(2), of ingested_world]
    h1 s l e
  show ?thesis by simp
qed

subsection \<open>Every ingestion replaces the store\<close>

text \<open>
  C4. Both ingestion runs reset the collection as their first call to a collaborator,
  before any load and any add. After a completed run the collection holds exactly the
  chunks split in that run under the identifiers generated in that run (and nothing
  after a run that \<^verbatim>\<open>add_documents\<close> ended with an exception), and the world the run ends
  in does not depend on what the collection held before.
\<close>

theorem ingestion_replaces_store:
  "take (Suc (length (calls w))) (calls (final (process_urls env urls w))) =
     calls w @ [ResetCollection] \<and>
   collection (final (process_urls env urls w)) =
     (let chunks = split_documents env
            (RecursiveCharacterTextSplitter env SEPARATORS CHUNK_SIZE None) (url_load env urls)
      in if outcome (process_urls env urls w) = None
         then zip (map (uuid4 env) [uuid_calls w ..< uuid_calls w + length chunks]) chunks
         else []) \<and>
   final (process_urls env urls (w\<lparr>collection := old\<rparr>)) = final (process_urls env urls w) \<and>
   take (Suc (length (calls w))) (calls (final (process_documents env files w))) =
     calls w @ [ResetCollection] \<and>
   collection (final (process_documents env files w)) =
     (let docs = all_docs (after_loading env files w);
          chunks = split_documents env
            (RecursiveCharacterTextSplitter env SEPARATORS CHUNK_SIZE (Some 200)) docs
      in if outcome (process_documents env files w) = None
         then (if docs = [] then []
               else zip (map (uuid4 env) [uuid_calls w ..< uuid_calls w + length chunks]) chunks)
         else []) \<and>
   final (process_documents env files (w\<lparr>collection := old\<rparr>)) =
     final (process_documents env files w)"
proof -
  have 1: "take (Suc (length (calls w))) (calls (final (process_urls env urls w))) =
     calls w @ [ResetCollection]"
    by (simp add: process_urls_final Let_def)
  have 2: "collection (final (process_urls env urls w)) =
     (let chunks = split_documents env
            (RecursiveCharacterTextSplitter env SEPARATORS CHUNK_SIZE None) (url_load env urls)
      in if outcome (process_urls env urls w) = None
         then zip (map (uuid4 env) [uuid_calls w ..< uuid_calls w + length chunks]) chunks
         else [])"
    by (simp add: process_urls_final Let_def)
  from process_documents_calls [of env files w] obtain ls rest where
    "calls (final (process_documents env files w)) =
       calls w @ ResetCollection # map FileLoad ls @ rest"
    by blast
  then have 4: "take (Suc (length (calls w))) (calls (final (process_documents env files w))) =
     calls w @ [ResetCollection]"
    by simp
  from 1 2 4 process_urls_forgets_collection process_documents_collection
    process_documents_forgets_collection
  show ?thesis by simp
qed

theorem ingestion_replaces_store_witness:
  "collection ingested_world \<noteq> [] \<and>
   outcome (process_documents demo_env [notes_txt] ingested_world) = None \<and>
   collection (final (process_documents demo_env [notes_txt] ingested_world)) =
     [(''uuu'', \<lparr>page_content = ''hello'', metadata = [(''source'', ''/tmp/tmp.txt'')]\<rparr>)] \<and>
   outcome (process_urls demo_env [''https://example.com/c''] ingested_world) = None \<and>
   collection (final (process_urls demo_env [''https://example.com/c''] ingested_world)) =
     [(''uuu'', \<lparr>page_content = ''text of https://example.com/c'',
                 metadata = [(''source'', ''https://example.com/c'')]\<rparr>)]"
proof -
  have t0: "tmp_files ingested_world = []" and u0: "uuid_calls ingested_world = 2"
    and c0: "collection ingested_world \<noteq> []"
    by (simp_all add: ingested_world_eq)
  have r: "[2 ..< 3] = [2::nat]" by (simp add: upt_rec)
  have s: "split_documents demo_env sp docs = docs" for sp docs
    by (simp add: demo_env_def)
  have ul: "url_load demo_env [''https://example.com/c''] =
      [\<lparr>page_content = ''text of https://example.com/c'',
         metadata = [(''source'', ''https://example.com/c'')]\<rparr>]"
    by (simp add: demo_env_def)
  have id: "uuid4 demo_env k = replicate (Suc k) CHR ''u''" for k
    by (simp add: demo_env_def)
  have od: "outcome (process_documents demo_env [notes_txt] ingested_world) = None"
    using after_loading_notes [OF t0] u0 r s
    by (simp add: process_documents_outcome Let_def) (simp add: demo_env_def)
  have ou: "outcome (process_urls demo_env [''https://example.com/c''] ingested_world) = None"
    using ul u0 r s
    by (simp add: process_urls_outcome Let_def) (simp add: demo_env_def)
  note t = ingestion_replaces_store
    [of ingested_world demo_env "[''https://example.com/c'']" "[]" "[notes_txt]"]
  from t [THEN conjunct2, THEN conjunct2, THEN conjunct2, THEN conjunct2, THEN conjunct1]
    after_loading_notes [OF t0] u0 r s id od
  have 1: "collection (final (process_documents demo_env [notes_txt] ingested_world)) =
     [(''uuu'', \<lparr>page_content = ''hello'', metadata = [(''source'', ''/tmp/tmp.txt'')]\<rparr>)]"
    by (simp add: Let_def numeral_2_eq_2)
  from t [THEN conjunct2, THEN conjunct1] ul u0 r s id ou
  have 2: "collection (final (process_urls demo_env [''https://example.com/c''] ingested_world)) =
     [(''uuu'', \<lparr>page_content = ''text of https://example.com/c'',
                 metadata = [(''source'', ''https://example.com/c'')]\<rparr>)]"
    by (simp add: Let_def numeral_2_eq_2)
  from c0 od ou 1 2 show ?thesis by simp
qed

subsection \<open>The splitter on three words\<close>

lemma occurs_first: "occurs (c # s) xs \<Longrightarrow> c \<in> set xs"
  by (induction xs) auto

lemma occurs_single: "c \<in> set xs \<Longrightarrow> occurs [c] xs"
  by (induction xs) auto

lemma scan_no_separator:
  "c \<notin> set xs \<Longrightarrow> scan [c] 0 piece xs = [piece @ xs]"
  by (induction xs arbitrary: piece) auto

lemma scan_separator:
  "c \<notin> set xs \<Longrightarrow> scan [c] 0 piece (xs @ c # ys) = (piece @ xs) # scan [c] 0 [c] ys"
  by (induction xs arbitrary: piece) auto

lemma strip_plain:
  assumes "s \<noteq> []" and "\<not> is_space (hd s)" and "\<not> is_space (last s)"
  shows "strip s = s"
proof -
  from assms(1,2) have a: "dropWhile is_space s = s"
    by (cases s) auto
  from assms(1,3) have b: "dropWhile is_space (rev s) = rev s"
    by (cases "rev s") (auto simp: last_rev [symmetric] hd_rev)
  show ?thesis by (simp add: strip_def a b)
qed

lemma strip_leading_space:
  assumes "s \<noteq> []" and "\<not> is_space (hd s)" and "\<not> is_space (last s)"
  shows "strip (CHR '' '' # s) = s"
proof -
  have "dropWhile is_space (CHR '' '' # s) = dropWhile is_space s"
    by (simp add: is_space_def)
  then have "strip (CHR '' '' # s) = strip s"
    by (simp add: strip_def)
  with strip_plain [OF assms] show ?thesis by simp
qed

lemma words_facts:
  "length word_a = 800" "length word_b = 149" "length word_c = 149"
  "set word_a = {CHR ''a''}" "set word_b = {CHR ''b''}" "set word_c = {CHR ''c''}"
  "word_a \<noteq> []" "word_b \<noteq> []" "word_c \<noteq> []"
  "hd word_a = CHR ''a''" "hd word_b = CHR ''b''" "last word_b = CHR ''b''"
  "last word_c = CHR ''c''"
  by (simp_all add: word_a_def word_b_def word_c_def)

lemma split_keep_three_words:
  "split_keep '' '' three_words = [word_a, '' '' @ word_b, '' '' @ word_c]"
proof -
  have "scan '' '' 0 [] (word_a @ CHR '' '' # word_b @ CHR '' '' # word_c) =
      word_a # scan '' '' 0 '' '' (word_b @ CHR '' '' # word_c)"
    using scan_separator [of "CHR '' ''" word_a "[]"] by (simp add: words_facts)
  also have "scan '' '' 0 '' '' (word_b @ CHR '' '' # word_c) =
      ('' '' @ word_b) # scan '' '' 0 '' '' word_c"
    using scan_separator [of "CHR '' ''" word_b "'' ''" word_c] by (simp add: words_facts)
  also have "scan '' '' 0 '' '' word_c = ['' '' @ word_c]"
    using scan_no_separator [of "CHR '' ''" word_c "'' ''"] by (simp add: words_facts)
  finally show ?thesis
    by (simp add: split_keep_def three_words_def words_facts)
qed


lemma strip_first_chunk:
  "strip (word_a @ CHR '' '' # word_b) = word_a @ CHR '' '' # word_b"
  by (rule strip_plain) (simp_all add: words_facts hd_append is_space_def)

lemma strip_second_chunk:
  "strip (CHR '' '' # word_b @ CHR '' '' # word_c) = word_b @ CHR '' '' # word_c"
  by (rule strip_leading_space) (simp_all add: words_facts hd_append is_space_def)

lemma three_words_separators:
  "\<not> occurs (NL @ NL) three_words" "\<not> occurs NL three_words"
  "\<not> occurs ''.'' three_words" "occurs '' '' three_words"
proof -
  have s: "set three_words = {CHR ''a'', CHR '' '', CHR ''b'', CHR ''c''}"
    by (auto simp: three_words_def words_facts)
  show "\<not> occurs (NL @ NL) three_words"
    using occurs_first [of "CHR 0x0A" NL three_words] by (auto simp: NL_def s)
  show "\<not> occurs NL three_words"
    using occurs_first [of "CHR 0x0A" "[]" three_words] by (auto simp: NL_def s)
  show "\<not> occurs ''.'' three_words"
    using occurs_first [of "CHR ''.''" "[]" three_words] by (auto simp: s)
  show "occurs '' '' three_words"
    by (rule occurs_single) (simp add: s)
qed

lemma split_text_three_words:
  "split_text \<lparr>separators = SEPARATORS, chunk_size = 1000, chunk_overlap = 200\<rparr> three_words =
     [word_a @ '' '' @ word_b, word_b @ '' '' @ word_c]"
proof -
  let ?cfg = "\<lparr>separators = SEPARATORS, chunk_size = 1000, chunk_overlap = 200\<rparr>"
  have nl: "NL \<noteq> []" "NL @ NL \<noteq> []"
    by (simp_all add: NL_def)
  have rec: "split_text ?cfg three_words =
      assemble ?cfg (\<lambda>s. [s]) (split_keep '' '' three_words) []"
    by (simp add: split_text_def SEPARATORS_def three_words_separators nl)
  have sh: "shrink ?cfg 0 150 [word_a, CHR '' '' # word_b] 950 = ([CHR '' '' # word_b], 150)"
    by (simp add: words_facts)
  have j1: "join_docs [] [word_a, CHR '' '' # word_b] = [word_a @ CHR '' '' # word_b]"
    by (simp add: join_docs_def strip_first_chunk Let_def words_facts)
  have j2: "join_docs [] [CHR '' '' # word_b, CHR '' '' # word_c] =
      [word_b @ CHR '' '' # word_c]"
    by (simp add: join_docs_def strip_second_chunk Let_def words_facts)
  have "merge_splits ?cfg [] [word_a, CHR '' '' # word_b, CHR '' '' # word_c] =
      [word_a @ CHR '' '' # word_b, word_b @ CHR '' '' # word_c]"
    by (simp add: merge_splits_def words_facts sh j1 j2 Let_def)
  then show ?thesis
    by (simp add: rec split_keep_three_words words_facts)
qed

subsection \<open>The overlap of the two chunks\<close>

lemma longest_overlap_eq:
  assumes "overlaps_by k a b" and "k \<le> n"
    and "\<And>j. k < j \<Longrightarrow> j \<le> n \<Longrightarrow> \<not> overlaps_by j a b"
  shows "longest_overlap n a b = k"
  using assms(2,3)
proof (induction n)
  case 0
  then show ?case by simp
next
  case (Suc n)
  show ?case
  proof (cases "k = Suc n")
    case True
    with assms(1) show ?thesis by simp
  next
    case False
    with Suc.prems(1) have kn: "k \<le> n" by simp
    from False kn Suc.prems(2) [of "Suc n"] have "\<not> overlaps_by (Suc n) a b" by simp
    moreover from Suc.IH [OF kn] Suc.prems(2) have "longest_overlap n a b = k" by simp
    ultimately show ?thesis by simp
  qed
qed

lemma first_chunk_before_word_b:
  "i \<le> 800 \<Longrightarrow> (word_a @ CHR '' '' # word_b) ! i \<noteq> CHR ''b''"
  by (cases "i < 800") (simp_all add: nth_append word_a_def)

lemma overlap_of_chunks:
  "overlap (word_a @ '' '' @ word_b) (word_b @ '' '' @ word_c) = 149"
proof -
  let ?a = "word_a @ CHR '' '' # word_b" and ?b = "word_b @ CHR '' '' # word_c"
  have la: "length ?a = 950" and lb: "length ?b = 299"
    by (simp_all add: words_facts)
  have yes: "overlaps_by 149 ?a ?b"
    by (simp add: overlaps_by_def words_facts)
  have no: "\<not> overlaps_by j ?a ?b" if "149 < j" "j \<le> 299" for j
  proof
    assume "overlaps_by j ?a ?b"
    then have "drop (length ?a - j) ?a = take j ?b"
      unfolding overlaps_by_def by (elim conjE)
    then have eq: "drop (950 - j) ?a = take j ?b"
      unfolding la .
    from that have i: "950 - j \<le> 800" "950 - j < length ?a"
      unfolding la by simp_all
    have "hd (drop (950 - j) ?a) = ?a ! (950 - j)"
      using i(2) by (rule hd_drop_conv_nth)
    moreover have "hd (take j ?b) = CHR ''b''"
      using that by (simp add: words_facts hd_append)
    ultimately have "?a ! (950 - j) = CHR ''b''"
      using eq by simp
    with first_chunk_before_word_b [OF i(1)] show False by simp
  qed
  have l: "longest_overlap 299 ?a ?b = 149"
    by (rule longest_overlap_eq [OF yes]) (simp_all add: no)
  have m: "min (length ?a) (length ?b) = 299"
    unfolding la lb by simp
  have "overlap ?a ?b = 149"
    unfolding overlap_def m by (rule l)
  then show ?thesis by simp
qed

lemma three_words_not_empty: "three_words \<noteq> []"
  by (simp add: three_words_def words_facts)

lemma words_env_splits:
  "split_documents words_env
     \<lparr>separators = SEPARATORS, chunk_size = 1000, chunk_overlap = 200\<rparr>
     [\<lparr>page_content = three_words, metadata = md\<rparr>] =
   [\<lparr>page_content = word_a @ '' '' @ word_b, metadata = md\<rparr>,
    \<lparr>page_content = word_b @ '' '' @ word_c, metadata = md\<rparr>]"
  by (simp add: words_env_def langchain_split_documents_def split_text_three_words)

lemma words_env_fields:
  "url_load words_env [u] = [\<lparr>page_content = three_words, metadata = [(''source'', u)]\<rparr>]"
  "default_chunk_overlap words_env = 200"
  "uuid4 words_env k = replicate (Suc k) CHR ''u''"
  "add_documents_error words_env docs (i # ids) = None"
  "str_lower words_env = ascii_lower"
  by (simp_all add: words_env_def demo_env_def)

lemma words_url_run:
  "collection (final (process_urls words_env [''https://example.com/words''] fresh_world)) =
     [(''u'', \<lparr>page_content = word_a @ '' '' @ word_b,
              metadata = [(''source'', ''https://example.com/words'')]\<rparr>),
      (''uu'', \<lparr>page_content = word_b @ '' '' @ word_c,
               metadata = [(''source'', ''https://example.com/words'')]\<rparr>)]"
proof -
  have u: "uuid_calls fresh_world = 0"
    by (simp add: fresh_world_def)
  have r: "[0 ..< 2] = [0, Suc 0]"
    by (simp add: upt_rec)
  show ?thesis
    by (simp add: process_urls_final process_urls_outcome Let_def
          RecursiveCharacterTextSplitter_def CHUNK_SIZE_def words_env_fields words_env_splits u r)
qed

lemma words_after_loading:
  "all_docs (after_loading words_env [words_txt] fresh_world) =
     [\<lparr>page_content = three_words, metadata = [(''source'', ''/tmp/tmp.txt'')]\<rparr>]"
  by (simp add: after_loading_def load_one_def words_txt_def lower_words select_loader_def
        words_env_def demo_env_def fresh_world_def Let_def reset_collection_def log_call_def
        initialize_components_def three_words_not_empty)

lemma words_document_run:
  "collection (final (process_documents words_env [words_txt] fresh_world)) =
     [(''u'', \<lparr>page_content = word_a @ '' '' @ word_b,
              metadata = [(''source'', ''/tmp/tmp.txt'')]\<rparr>),
      (''uu'', \<lparr>page_content = word_b @ '' '' @ word_c,
               metadata = [(''source'', ''/tmp/tmp.txt'')]\<rparr>)]"
proof -
  have u: "uuid_calls fresh_world = 0"
    by (simp add: fresh_world_def)
  have r: "[0 ..< 2] = [0, Suc 0]"
    by (simp add: upt_rec)
  show ?thesis
    by (simp add: process_documents_collection process_documents_outcome Let_def
          RecursiveCharacterTextSplitter_def CHUNK_SIZE_def words_env_fields words_env_splits
          words_after_loading u r)
qed

text \<open>
  C3, as stated, has adjacent chunks of one source document overlap by exactly 0
  characters in URL mode and exactly 200 in document mode. A document of three words
  of 800, 149 and 149 letters, split as langchain's splitter splits it with the
  settings of the two pipelines, gives two chunks in each mode, the first and second
  word and the second and third word: the chunks share the 149 letters of the second
  word and no more, in URL mode (where no overlap is passed and the library's default
  of 200 applies) as in document mode.
\<close>

theorem adjacent_chunks_share_149_characters:
  "map snd (collection
     (final (process_urls words_env [''https://example.com/words''] fresh_world))) =
     [\<lparr>page_content = word_a @ '' '' @ word_b,
        metadata = [(''source'', ''https://example.com/words'')]\<rparr>,
      \<lparr>page_content = word_b @ '' '' @ word_c,
        metadata = [(''source'', ''https://example.com/words'')]\<rparr>] \<and>
   map snd (collection (final (process_documents words_env [words_txt] fresh_world))) =
     [\<lparr>page_content = word_a @ '' '' @ word_b, metadata = [(''source'', ''/tmp/tmp.txt'')]\<rparr>,
      \<lparr>page_content = word_b @ '' '' @ word_c, metadata = [(''source'', ''/tmp/tmp.txt'')]\<rparr>] \<and>
   overlap (word_a @ '' '' @ word_b) (word_b @ '' '' @ word_c) = 149"
  using words_url_run words_document_run overlap_of_chunks by simp

subsection \<open>The overlap handed to the splitter\<close>

text \<open>
  C3, amended. The two pipelines fix the settings of the splitter, not what adjacent
  chunks share. \<^verbatim>\<open>process_urls\<close> calls the splitter once, built with the four separators,
  chunk size 1000 and no overlap argument, so with the library's default overlap;
  \<^verbatim>\<open>process_documents\<close> calls it once when a document was loaded (and not at all
  otherwise), built with the same separators and chunk size and overlap 200.
\<close>

theorem splitter_configuration:
  "split_configs (calls (final (process_urls env urls w))) =
     split_configs (calls w) @
       [\<lparr>separators = SEPARATORS, chunk_size = 1000,
         chunk_overlap = default_chunk_overlap env\<rparr>] \<and>
   split_configs (calls (final (process_documents env files w))) =
     split_configs (calls w) @
       (if all_docs (after_loading env files w) = [] then []
        else [\<lparr>separators = SEPARATORS, chunk_size = 1000, chunk_overlap = 200\<rparr>])"
proof -
  have u: "split_configs (calls (final (process_urls env urls w))) =
     split_configs (calls w) @
       [\<lparr>separators = SEPARATORS, chunk_size = 1000,
         chunk_overlap = default_chunk_overlap env\<rparr>]"
    by (simp add: process_urls_final Let_def split_configs_append split_configs_simps
          RecursiveCharacterTextSplitter_def CHUNK_SIZE_def)
  from process_documents_calls [of env files w] obtain ls where
    c: "calls (final (process_documents env files w)) =
     calls w @ ResetCollection # map FileLoad ls @
       (let docs = all_docs (after_loading env files w);
            text_splitter = RecursiveCharacterTextSplitter env SEPARATORS CHUNK_SIZE (Some 200);
            chunks = split_documents env text_splitter docs
        in if docs = [] then []
           else [SplitDocuments text_splitter docs,
                 AddDocuments chunks
                   (map (uuid4 env) [uuid_calls w ..< uuid_calls w + length chunks])])"
    by blast
  have d: "split_configs (calls (final (process_documents env files w))) =
     split_configs (calls w) @
       (if all_docs (after_loading env files w) = [] then []
        else [\<lparr>separators = SEPARATORS, chunk_size = 1000, chunk_overlap = 200\<rparr>])"
    by (simp add: c Let_def split_configs_append split_configs_simps split_configs_FileLoad
          RecursiveCharacterTextSplitter_def CHUNK_SIZE_def)
  from u d show ?thesis ..
qed

theorem splitter_configuration_witness:
  "split_configs (calls (final (process_urls demo_env [''https://example.com/a''] fresh_world))) =
     [\<lparr>separators = SEPARATORS, chunk_size = 1000, chunk_overlap = 200\<rparr>] \<and>
   split_configs
     (calls (final (process_urls (demo_env\<lparr>default_chunk_overlap := 0\<rparr>)
        [''https://example.com/a''] fresh_world))) =
     [\<lparr>separators = SEPARATORS, chunk_size = 1000, chunk_overlap = 0\<rparr>] \<and>
   split_configs
     (calls (final (process_documents (demo_env\<lparr>default_chunk_overlap := 0\<rparr>)
        [notes_txt] fresh_world))) =
     [\<lparr>separators = SEPARATORS, chunk_size = 1000, chunk_overlap = 200\<rparr>]"
proof -
  have c: "split_configs (calls fresh_world) = []"
    by (simp add: fresh_world_def split_configs_simps)
  have d: "default_chunk_overlap demo_env = 200"
    by (simp add: demo_env_def)
  have l: "all_docs (after_loading (demo_env\<lparr>default_chunk_overlap := 0\<rparr>) [notes_txt]
      fresh_world) \<noteq> []"
    by (simp add: after_loading_def load_one_def notes_txt_def lower_txt select_loader_def
        demo_env_def Let_def)
  from splitter_configuration [of demo_env "[''https://example.com/a'']" fresh_world "[]"]
    splitter_configuration [of "demo_env\<lparr>default_chunk_overlap := 0\<rparr>"
      "[''https://example.com/a'']" fresh_world "[notes_txt]"]
    c d l
  show ?thesis by simp
qed

subsection \<open>Temporary files\<close>

lemma clean_up_subset:
  "set (tmp_files (clean_up env ps w)) \<subseteq> set (tmp_files w)"
proof (induction ps arbitrary: w)
  case Nil
  show ?case by simp
next
  case (Cons p ps)
  let ?w = "if p \<in> set (tmp_files w)
            then (case unlink env p of None \<Rightarrow> w\<lparr>tmp_files := removeAll p (tmp_files w)\<rparr>
                  | Some e \<Rightarrow> w)
            else w"
  have "set (tmp_files ?w) \<subseteq> set (tmp_files w)"
    by (auto split: option.splits)
  with Cons.IH [of ?w] show ?case by auto
qed

lemma clean_up_removes:
  "p \<in> set ps \<Longrightarrow> unlink env p = None \<Longrightarrow> p \<notin> set (tmp_files (clean_up env ps w))"
proof (induction ps arbitrary: w)
  case Nil
  then show ?case by simp
next
  case (Cons q ps)
  let ?w = "if q \<in> set (tmp_files w)
            then (case unlink env q of None \<Rightarrow> w\<lparr>tmp_files := removeAll q (tmp_files w)\<rparr>
                  | Some e \<Rightarrow> w)
            else w"
  show ?case
  proof (cases "p = q")
    case True
    with Cons.prems have "p \<notin> set (tmp_files ?w)" by auto
    with clean_up_subset [of env ps ?w] show ?thesis by auto
  next
    case False
    with Cons.prems have "p \<in> set ps" by simp
    from Cons.IH [OF this Cons.prems(2), of ?w] show ?thesis by simp
  qed
qed

lemma load_one_tmp_files:
  assumes "\<forall>q c. tmp_write env q c = None"
    and "set (tmp_files (now st)) \<subseteq> A \<union> set (tmp_paths st)"
  shows "set (tmp_files (now (snd (load_one env f st)))) \<subseteq>
           A \<union> set (tmp_paths (snd (load_one env f st)))"
  using assms
  by (auto simp: load_one_def Let_def log_call_def split: sum.splits option.splits)

lemma load_files_tmp_files:
  assumes "\<forall>q c. tmp_write env q c = None"
    and "set (tmp_files (now st)) \<subseteq> A \<union> set (tmp_paths st)"
  shows "set (tmp_files (now (snd (load_files env fs st)))) \<subseteq>
           A \<union> set (tmp_paths (snd (load_files env fs st)))"
  using assms(2)
proof (induction fs arbitrary: st)
  case Nil
  then show ?case by simp
next
  case (Cons f fs)
  obtain ys st1 where one: "load_one env f st = (ys, st1)" by (cases "load_one env f st")
  obtain yss st2 where rest: "load_files env fs st1 = (yss, st2)" by (cases "load_files env fs st1")
  from load_one_tmp_files [OF assms(1) Cons.prems, of f] one
  have "set (tmp_files (now st1)) \<subseteq> A \<union> set (tmp_paths st1)" by simp
  from Cons.IH [OF this] rest one show ?case by simp
qed

lemma tmp_files_final_process_documents:
  "tmp_files (final (process_documents env files w)) =
     tmp_files (clean_up env (tmp_paths (after_loading env files w))
       (now (after_loading env files w)))"
  by (simp add: process_documents_final Let_def log_call_def add_documents_def fresh_uuids_def
        split: option.splits)

text \<open>
  C6, as stated, promises the removal also when the caller stops consuming the statuses
  early. A caller that takes four statuses of a one-file batch (the fourth reports the
  file loaded) and drops the generator leaves the temporary file on disk: the clean-up
  loop comes after the loop over the files and is never reached. The same run consumed
  to its end removes the file.
\<close>

theorem abandoned_run_leaves_tmp_file:
  "statuses (process_documents demo_env [notes_txt] fresh_world) ! 3 = Loaded ''notes.txt'' 1 \<and>
   map_option tmp_files
     (stop_after 4 fresh_world (process_documents demo_env [notes_txt] fresh_world)) =
     Some [''/tmp/tmp.txt''] \<and>
   tmp_files (final (process_documents demo_env [notes_txt] fresh_world)) = []"
  by (simp add: process_documents_def stop_after_def statuses_def notes_txt_def lower_txt
        load_one_def select_loader_def demo_env_def fresh_world_def Let_def
        initialize_components_def reset_collection_def log_call_def add_documents_def
        fresh_uuids_def RecursiveCharacterTextSplitter_def)

text \<open>
  C6, amended. In a document run consumed to its end, every temporary file whose path
  was recorded (its write succeeded) is deleted after the loop over the files, whether
  its extraction succeeded or failed, unless \<^verbatim>\<open>os.unlink\<close> raises for it; when no
  \<^verbatim>\<open>unlink\<close> and no write raises, no temporary file of the run is left.
\<close>

theorem completed_run_deletes_recorded_tmp_files:
  "(p \<in> set (tmp_paths (after_loading env files w)) \<longrightarrow> unlink env p = None \<longrightarrow>
      p \<notin> set (tmp_files (final (process_documents env files w)))) \<and>
   ((\<forall>q. unlink env q = None) \<longrightarrow> (\<forall>q c. tmp_write env q c = None) \<longrightarrow>
      set (tmp_files (final (process_documents env files w))) \<subseteq> set (tmp_files w))"
proof -
  let ?st = "after_loading env files w"
  have 1: "p \<notin> set (tmp_files (final (process_documents env files w)))"
    if "p \<in> set (tmp_paths ?st)" "unlink env p = None"
    using clean_up_removes [OF that, of "now ?st"]
    by (simp add: tmp_files_final_process_documents)
  have 2: "set (tmp_files (final (process_documents env files w))) \<subseteq> set (tmp_files w)"
    if u: "\<forall>q. unlink env q = None" and wr: "\<forall>q c. tmp_write env q c = None"
  proof
    fix x assume x: "x \<in> set (tmp_files (final (process_documents env files w)))"
    let ?start = "\<lparr>all_docs = [], tmp_paths = [],
                  now = reset_collection (initialize_components env w)\<rparr>"
    have init: "set (tmp_files (now ?start)) \<subseteq> set (tmp_files w) \<union> set (tmp_paths ?start)"
      by (simp add: reset_collection_def log_call_def tmp_files_initialize_components)
    have inv: "set (tmp_files (now ?st)) \<subseteq> set (tmp_files w) \<union> set (tmp_paths ?st)"
      unfolding after_loading_def
      by (rule load_files_tmp_files
            [where st = ?start and A = "set (tmp_files w)" and fs = files, OF wr init])
    from x have xc: "x \<in> set (tmp_files (clean_up env (tmp_paths ?st) (now ?st)))"
      by (simp add: tmp_files_final_process_documents)
    with clean_up_subset [of env "tmp_paths ?st" "now ?st"]
    have "x \<in> set (tmp_files (now ?st))" by auto
    moreover have "x \<notin> set (tmp_paths ?st)"
      using clean_up_removes [of x "tmp_paths ?st" env "now ?st"] u xc by auto
    ultimately show "x \<in> set (tmp_files w)" using inv by auto
  qed
  from 1 2 show ?thesis by blast
qed

theorem completed_run_deletes_recorded_tmp_files_witness:
  "''/tmp/tmp.png'' \<in> set (tmp_paths (after_loading demo_env [scan_png, notes_txt] fresh_world)) \<and>
   unlink demo_env ''/tmp/tmp.png'' = None \<and>
   ''/tmp/tmp.png'' \<notin>
     set (tmp_files (final (process_documents demo_env [scan_png, notes_txt] fresh_world))) \<and>
   set (tmp_files (final (process_documents demo_env [scan_png, notes_txt] fresh_world)))
     \<subseteq> set (tmp_files fresh_world)"
proof -
  have a: "''/tmp/tmp.png'' \<in>
      set (tmp_paths (after_loading demo_env [scan_png, notes_txt] fresh_world))"
    by (simp add: after_loading_mixed)
  have u: "unlink demo_env q = None" for q
    by (simp add: demo_env_def)
  have wr: "tmp_write demo_env q c = None" for q c
    by (simp add: demo_env_def)
  note t = completed_run_deletes_recorded_tmp_files
    [of "''/tmp/tmp.png''" demo_env "[scan_png, notes_txt]" fresh_world]
  from t [THEN conjunct1] a u have 1: "''/tmp/tmp.png'' \<notin>
     set (tmp_files (final (process_documents demo_env [scan_png, notes_txt] fresh_world)))"
    by simp
  from t [THEN conjunct2] u wr have 2:
    "set (tmp_files (final (process_documents demo_env [scan_png, notes_txt] fresh_world)))
     \<subseteq> set (tmp_files fresh_world)"
    by simp
  from a u 1 2 show ?thesis by simp
qed

subsection \<open>Files that fail to load\<close>

lemma load_one_no_content:
  "no_content env f \<Longrightarrow> all_docs (snd (load_one env f st)) = all_docs st"
proof -
  assume nc: "no_content env f"
  have c: "case load env (loader_for env f p) (getvalue f) of
          Inl e \<Rightarrow> True | Inr docs \<Rightarrow> docs = []" for p
    using nc by (simp add: no_content_def)
  have "load env (loader_for env f p) (getvalue f) \<noteq> Inr docs"
    if "docs \<noteq> []" for p docs
    using that c [of p] by (cases "load env (loader_for env f p) (getvalue f)") auto
  then show ?thesis
    by (auto simp: load_one_def loader_for_def Let_def split: sum.splits option.splits)
qed

lemma load_files_no_content:
  "\<forall>f \<in> set fs. no_content env f \<Longrightarrow> all_docs (snd (load_files env fs st)) = all_docs st"
proof (induction fs arbitrary: st)
  case Nil
  show ?case by simp
next
  case (Cons f fs)
  obtain ys st1 where one: "load_one env f st = (ys, st1)" by (cases "load_one env f st")
  obtain yss st2 where rest: "load_files env fs st1 = (yss, st2)" by (cases "load_files env fs st1")
  from Cons.prems have "no_content env f" and tl: "\<forall>f \<in> set fs. no_content env f" by simp_all
  from load_one_no_content [OF this(1), of st] one have "all_docs st1 = all_docs st" by simp
  with Cons.IH [OF tl, of st1] rest one show ?case by simp
qed

lemma load_one_outcome:
  "List.map_filter outcome_file (map fst (fst (load_one env f st))) = [name f]"
  by (simp add: load_one_def Let_def List.map_filter_simps split: sum.splits option.splits)

lemma load_files_outcomes:
  "List.map_filter outcome_file (map fst (fst (load_files env fs st))) = map name fs"
proof (induction fs arbitrary: st)
  case Nil
  show ?case by (simp add: List.map_filter_simps)
next
  case (Cons f fs)
  obtain ys st1 where one: "load_one env f st = (ys, st1)" by (cases "load_one env f st")
  obtain yss st2 where rest: "load_files env fs st1 = (yss, st2)" by (cases "load_files env fs st1")
  from load_one_outcome [of env f st] one
  have a: "List.map_filter outcome_file (map fst ys) = [name f]" by simp
  from Cons.IH [of st1] rest
  have b: "List.map_filter outcome_file (map fst yss) = map name fs" by simp
  from a b one rest show ?case by (simp add: map_filter_append)
qed

lemma load_one_error_status:
  assumes "loader_raises env f"
  shows "\<exists>e. ErrorLoading (name f) e \<in> fst ` set (fst (load_one env f st))"
proof (cases "NamedTemporaryFile env (tmp_files (now st)) (str_lower env (path_suffix (name f)))")
  case (Inl e)
  then have "ErrorLoading (name f) e \<in> fst ` set (fst (load_one env f st))"
    by (simp add: load_one_def Let_def)
  then show ?thesis ..
next
  case (Inr p)
  show ?thesis
  proof (cases "tmp_write env p (getvalue f)")
    case (Some e)
    with Inr have "ErrorLoading (name f) e \<in> fst ` set (fst (load_one env f st))"
      by (simp add: load_one_def Let_def)
    then show ?thesis ..
  next
    case None
    from assms obtain e
      where "load env (select_loader (str_lower env (path_suffix (name f))) p) (getvalue f) = Inl e"
      unfolding loader_raises_def loader_for_def by blast
    with Inr None have "ErrorLoading (name f) e \<in> fst ` set (fst (load_one env f st))"
      by (simp add: load_one_def Let_def)
    then show ?thesis ..
  qed
qed

lemma load_files_error_status:
  assumes "f \<in> set fs" and "loader_raises env f"
  shows "\<exists>e. ErrorLoading (name f) e \<in> fst ` set (fst (load_files env fs st))"
  using assms(1)
proof (induction fs arbitrary: st)
  case Nil
  then show ?case by simp
next
  case (Cons g fs)
  obtain ys st1 where one: "load_one env g st = (ys, st1)" by (cases "load_one env g st")
  obtain yss st2 where rest: "load_files env fs st1 = (yss, st2)" by (cases "load_files env fs st1")
  show ?case
  proof (cases "f = g")
    case True
    from load_one_error_status [OF assms(2), of st] True one
    obtain e where "ErrorLoading (name f) e \<in> fst ` set ys" by auto
    then have "ErrorLoading (name f) e \<in> fst ` set (fst (load_files env (g # fs) st))"
      using one rest by auto
    then show ?thesis ..
  next
    case False
    with Cons.prems have "f \<in> set fs" by simp
    from Cons.IH [OF this, of st1] rest
    obtain e where "ErrorLoading (name f) e \<in> fst ` set yss" by auto
    then have "ErrorLoading (name f) e \<in> fst ` set (fst (load_files env (g # fs) st))"
      using one rest by auto
    then show ?thesis ..
  qed
qed

text \<open>What the loop has done with a file stays done: documents and calls only grow.\<close>

lemma load_one_grows:
  "set (all_docs st) \<subseteq> set (all_docs (snd (load_one env f st))) \<and>
   set (calls (now st)) \<subseteq> set (calls (now (snd (load_one env f st))))"
  by (auto simp: load_one_def Let_def log_call_def split: sum.splits option.splits)

lemma load_files_grows:
  "set (all_docs st) \<subseteq> set (all_docs (snd (load_files env fs st))) \<and>
   set (calls (now st)) \<subseteq> set (calls (now (snd (load_files env fs st))))"
proof (induction fs arbitrary: st)
  case Nil
  show ?case by simp
next
  case (Cons f fs)
  obtain ys st1 where one: "load_one env f st = (ys, st1)" by (cases "load_one env f st")
  obtain yss st2 where rest: "load_files env fs st1 = (yss, st2)" by (cases "load_files env fs st1")
  from load_one_grows [of st env f] one Cons.IH [of st1] rest
  show ?case by auto
qed

text \<open>A file whose temporary copy can be saved reaches its loader.\<close>

lemma load_one_loader_called:
  assumes "saves env f"
  shows "\<exists>p. FileLoad (loader_for env f p) \<in> set (calls (now (snd (load_one env f st))))"
proof -
  from assms obtain p
    where c: "NamedTemporaryFile env (tmp_files (now st)) (str_lower env (path_suffix (name f)))
        = Inr p"
    unfolding saves_def by blast
  from assms have wr: "tmp_write env p (getvalue f) = None"
    unfolding saves_def by blast
  have "FileLoad (loader_for env f p) \<in> set (calls (now (snd (load_one env f st))))"
    using c wr
    by (simp add: load_one_def loader_for_def Let_def log_call_def split: sum.splits)
  then show ?thesis ..
qed

lemma load_one_loaded:
  assumes "saves env f" and "loader_returns env f"
  shows "\<exists>p docs. load env (loader_for env f p) (getvalue f) = Inr docs \<and>
           Loaded (name f) (length docs) \<in> fst ` set (fst (load_one env f st)) \<and>
           set docs \<subseteq> set (all_docs (snd (load_one env f st)))"
proof -
  from assms(1) obtain p
    where c: "NamedTemporaryFile env (tmp_files (now st)) (str_lower env (path_suffix (name f)))
        = Inr p"
    unfolding saves_def by blast
  from assms(1) have wr: "tmp_write env p (getvalue f) = None"
    unfolding saves_def by blast
  from assms(2) obtain docs
    where d: "docs \<noteq> []" "load env (loader_for env f p) (getvalue f) = Inr docs"
    unfolding loader_returns_def by blast
  have "Loaded (name f) (length docs) \<in> fst ` set (fst (load_one env f st)) \<and>
        set docs \<subseteq> set (all_docs (snd (load_one env f st)))"
    using c wr d
    by (simp add: load_one_def loader_for_def Let_def)
  with d(2) show ?thesis by blast
qed

lemma load_files_loader_called:
  assumes "f \<in> set fs" and "saves env f"
  shows "\<exists>p. FileLoad (loader_for env f p) \<in> set (calls (now (snd (load_files env fs st))))"
  using assms(1)
proof (induction fs arbitrary: st)
  case Nil
  then show ?case by simp
next
  case (Cons g fs)
  obtain ys st1 where one: "load_one env g st = (ys, st1)" by (cases "load_one env g st")
  obtain yss st2 where rest: "load_files env fs st1 = (yss, st2)" by (cases "load_files env fs st1")
  show ?case
  proof (cases "f = g")
    case True
    from load_one_loader_called [OF assms(2), of st] True one
    obtain p where "FileLoad (loader_for env f p) \<in> set (calls (now st1))" by auto
    with load_files_grows [of st1 env fs] rest
    have "FileLoad (loader_for env f p) \<in> set (calls (now st2))" by auto
    then have "FileLoad (loader_for env f p)
        \<in> set (calls (now (snd (load_files env (g # fs) st))))"
      using one rest by simp
    then show ?thesis ..
  next
    case False
    with Cons.prems have "f \<in> set fs" by simp
    from Cons.IH [OF this, of st1] rest one show ?thesis by simp
  qed
qed

lemma load_files_loaded:
  assumes "f \<in> set fs" and "saves env f" and "loader_returns env f"
  shows "\<exists>p docs. load env (loader_for env f p) (getvalue f) = Inr docs \<and>
           Loaded (name f) (length docs) \<in> fst ` set (fst (load_files env fs st)) \<and>
           set docs \<subseteq> set (all_docs (snd (load_files env fs st)))"
  using assms(1)
proof (induction fs arbitrary: st)
  case Nil
  then show ?case by simp
next
  case (Cons g fs)
  obtain ys st1 where one: "load_one env g st = (ys, st1)" by (cases "load_one env g st")
  obtain yss st2 where rest: "load_files env fs st1 = (yss, st2)" by (cases "load_files env fs st1")
  show ?case
  proof (cases "f = g")
    case True
    from load_one_loaded [OF assms(2,3), of st] True one
    obtain p docs where l: "load env (loader_for env f p) (getvalue f) = Inr docs"
      and s: "Loaded (name f) (length docs) \<in> fst ` set ys"
      and d: "set docs \<subseteq> set (all_docs st1)" by auto
    from d load_files_grows [of st1 env fs] rest
    have "set docs \<subseteq> set (all_docs st2)" by auto
    with l s one rest
    have "load env (loader_for env f p) (getvalue f) = Inr docs \<and>
          Loaded (name f) (length docs) \<in> fst ` set (fst (load_files env (g # fs) st)) \<and>
          set docs \<subseteq> set (all_docs (snd (load_files env (g # fs) st)))"
      by auto
    then show ?thesis by blast
  next
    case False
    with Cons.prems have "f \<in> set fs" by simp
    from Cons.IH [OF this, of st1] rest one show ?thesis by auto
  qed
qed

lemma calls_after_loading_kept:
  "set (calls (now (after_loading env files w))) \<subseteq> set (calls (final (process_documents env files w)))"
  by (auto simp: process_documents_final Let_def clean_up_frame log_call_def add_documents_def
        fresh_uuids_def split: option.splits)

lemma process_documents_goes_on:
  "NoDocumentsLoaded \<in> set (statuses (process_documents env files w)) \<or>
   SplitDocuments (RecursiveCharacterTextSplitter env SEPARATORS CHUNK_SIZE (Some 200))
     (all_docs (after_loading env files w))
     \<in> set (calls (final (process_documents env files w)))"
  by (auto simp: process_documents_statuses process_documents_final Let_def clean_up_frame
        log_call_def add_documents_def fresh_uuids_def split: option.splits)

text \<open>
  C2. When the batch aggregates no loaded document (every file fails to load: its
  temporary copy cannot be created or written, or its loader raises or returns
  nothing), the run yields the terminal failure status as its last status, right after
  the statuses of the files, and ends there: it makes no \<^verbatim>\<open>split_documents\<close> and no
  \<^verbatim>\<open>add_documents\<close> call, and the collection stays empty.
\<close>

theorem empty_corpus_stops_before_chunking:
  assumes "all_docs (after_loading env files w) = []"
  shows "statuses (process_documents env files w) =
           [InitializingComponents, ResettingVectorStore]
           @ map fst (loading_yields env files w) @ [NoDocumentsLoaded] \<and>
         last (statuses (process_documents env files w)) = NoDocumentsLoaded \<and>
         outcome (process_documents env files w) = None \<and>
         filter chunking_call (calls (final (process_documents env files w))) =
           filter chunking_call (calls w) \<and>
         collection (final (process_documents env files w)) = []"
proof -
  have s: "statuses (process_documents env files w) =
           [InitializingComponents, ResettingVectorStore]
           @ map fst (loading_yields env files w) @ [NoDocumentsLoaded]"
    using assms by (simp add: process_documents_statuses)
  have o: "outcome (process_documents env files w) = None"
    using assms by (simp add: process_documents_outcome)
  from process_documents_calls [of env files w] assms obtain ls where
    "calls (final (process_documents env files w)) = calls w @ ResetCollection # map FileLoad ls"
    by auto
  moreover have "filter chunking_call (map FileLoad ls) = []"
    by (induction ls) simp_all
  ultimately have c: "filter chunking_call (calls (final (process_documents env files w))) =
           filter chunking_call (calls w)"
    by simp
  have k: "collection (final (process_documents env files w)) = []"
    using assms o by (simp add: process_documents_collection)
  from s o c k show ?thesis by simp
qed

text \<open>Every file failing in its loader is one way to aggregate nothing.\<close>

lemma no_document_when_no_file_has_content:
  assumes "\<forall>f \<in> set files. no_content env f"
  shows "all_docs (after_loading env files w) = []"
  using load_files_no_content [OF assms] by (simp add: after_loading_def)

theorem empty_corpus_stops_before_chunking_witness:
  "all_docs (after_loading demo_env [scan_png, empty_pdf] ingested_world) = [] \<and>
   last (statuses (process_documents demo_env [scan_png, empty_pdf] ingested_world)) =
     NoDocumentsLoaded \<and>
   filter chunking_call
     (calls (final (process_documents demo_env [scan_png, empty_pdf] ingested_world))) =
     filter chunking_call (calls ingested_world) \<and>
   collection (final (process_documents demo_env [scan_png, empty_pdf] ingested_world)) = [] \<and>
   all_docs (after_loading full_disk_env [notes_txt] ingested_world) = [] \<and>
   statuses (process_documents full_disk_env [notes_txt] ingested_world) =
     [InitializingComponents, ResettingVectorStore,
      ErrorLoading ''notes.txt'' (OSError ''No space left on device''), NoDocumentsLoaded] \<and>
   collection (final (process_documents full_disk_env [notes_txt] ingested_world)) = []"
proof -
  have a: "all_docs (after_loading demo_env [scan_png, empty_pdf] ingested_world) = []"
    by (simp add: after_loading_def load_one_def scan_png_def empty_pdf_def lower_png lower_pdf
          select_loader_def demo_env_def Let_def)
  have b: "all_docs (after_loading full_disk_env [notes_txt] ingested_world) = []"
    by (simp add: after_loading_def load_one_def notes_txt_def full_disk_env_def demo_env_def
          Let_def)
  have y: "map fst (loading_yields full_disk_env [notes_txt] ingested_world) =
      [ErrorLoading ''notes.txt'' (OSError ''No space left on device'')]"
    by (simp add: loading_yields_def load_one_def notes_txt_def full_disk_env_def demo_env_def
          Let_def)
  from empty_corpus_stops_before_chunking [OF a] empty_corpus_stops_before_chunking [OF b] a b y
  show ?thesis by simp
qed

text \<open>
  C7. In every document batch each file gets exactly one outcome status, in batch
  order, whatever happened to the files before it. A file whose loader raises gets an
  error status. Every file whose temporary copy can be saved reaches its loader, and
  when the loader returns documents they are reported and aggregated, whatever
  failed elsewhere in the batch. After the loop the run goes on: it yields the
  terminal failure status or hands the aggregated documents to the splitter.
\<close>

theorem per_file_failure_does_not_abort:
  "List.map_filter outcome_file (statuses (process_documents env files w)) = map name files \<and>
   (\<forall>f \<in> set files. loader_raises env f \<longrightarrow>
      (\<exists>e. ErrorLoading (name f) e \<in> set (statuses (process_documents env files w)))) \<and>
   (\<forall>f \<in> set files. saves env f \<longrightarrow>
      (\<exists>p. FileLoad (loader_for env f p)
         \<in> set (calls (final (process_documents env files w))))) \<and>
   (\<forall>f \<in> set files. saves env f \<longrightarrow> loader_returns env f \<longrightarrow>
      (\<exists>p docs. load env (loader_for env f p) (getvalue f) = Inr docs \<and>
         Loaded (name f) (length docs) \<in> set (statuses (process_documents env files w)) \<and>
         set docs \<subseteq> set (all_docs (after_loading env files w)))) \<and>
   (NoDocumentsLoaded \<in> set (statuses (process_documents env files w)) \<or>
    SplitDocuments (RecursiveCharacterTextSplitter env SEPARATORS CHUNK_SIZE (Some 200))
      (all_docs (after_loading env files w))
      \<in> set (calls (final (process_documents env files w))))"
proof -
  let ?r = "process_documents env files w"
  let ?start = "\<lparr>all_docs = [], tmp_paths = [],
                  now = reset_collection (initialize_components env w)\<rparr>"
  have 1: "List.map_filter outcome_file (statuses ?r) = map name files"
    using load_files_outcomes [of env files]
    by (simp add: process_documents_statuses map_filter_append List.map_filter_simps
          loading_yields_def Let_def)
  have 2: "\<exists>e. ErrorLoading (name f) e \<in> set (statuses ?r)"
    if "f \<in> set files" "loader_raises env f" for f
  proof -
    from load_files_error_status [OF that] obtain e
      where "ErrorLoading (name f) e \<in> fst ` set (loading_yields env files w)"
      unfolding loading_yields_def by blast
    then have "ErrorLoading (name f) e \<in> set (statuses ?r)"
      by (simp add: process_documents_statuses)
    then show ?thesis ..
  qed
  have 3: "\<exists>p. FileLoad (loader_for env f p) \<in> set (calls (final ?r))"
    if "f \<in> set files" "saves env f" for f
  proof -
    from load_files_loader_called [OF that, of ?start] obtain p
      where "FileLoad (loader_for env f p) \<in> set (calls (now (after_loading env files w)))"
      unfolding after_loading_def by blast
    with calls_after_loading_kept [of env files w]
    have "FileLoad (loader_for env f p) \<in> set (calls (final ?r))" by auto
    then show ?thesis ..
  qed
  have 4: "\<exists>p docs. load env (loader_for env f p) (getvalue f) = Inr docs \<and>
         Loaded (name f) (length docs) \<in> set (statuses ?r) \<and>
         set docs \<subseteq> set (all_docs (after_loading env files w))"
    if "f \<in> set files" "saves env f" "loader_returns env f" for f
  proof -
    from load_files_loaded [OF that, of ?start] obtain p docs
      where l: "load env (loader_for env f p) (getvalue f) = Inr docs"
        and s: "Loaded (name f) (length docs) \<in> fst ` set (loading_yields env files w)"
        and d: "set docs \<subseteq> set (all_docs (after_loading env files w))"
      unfolding after_loading_def loading_yields_def by blast
    from s have "Loaded (name f) (length docs) \<in> set (statuses ?r)"
      by (simp add: process_documents_statuses)
    with l d show ?thesis by blast
  qed
  note 5 = process_documents_goes_on [of env files w]
  from 1 2 3 4 5 show ?thesis by blast
qed

theorem per_file_failure_does_not_abort_witness:
  "scan_png \<in> set [scan_png, notes_txt] \<and> loader_raises demo_env scan_png \<and>
   notes_txt \<in> set [scan_png, notes_txt] \<and> saves demo_env notes_txt \<and>
   loader_returns demo_env notes_txt \<and>
   List.map_filter outcome_file
     (statuses (process_documents demo_env [scan_png, notes_txt] fresh_world)) =
     [''scan.png'', ''notes.txt''] \<and>
   (\<exists>e. ErrorLoading ''scan.png'' e \<in>
      set (statuses (process_documents demo_env [scan_png, notes_txt] fresh_world))) \<and>
   (\<exists>p. FileLoad (loader_for demo_env notes_txt p) \<in>
      set (calls (final (process_documents demo_env [scan_png, notes_txt] fresh_world)))) \<and>
   (\<exists>p docs. load demo_env (loader_for demo_env notes_txt p) (getvalue notes_txt) = Inr docs \<and>
      Loaded ''notes.txt'' (length docs) \<in>
        set (statuses (process_documents demo_env [scan_png, notes_txt] fresh_world)) \<and>
      set docs \<subseteq> set (all_docs (after_loading demo_env [scan_png, notes_txt] fresh_world)))"
proof -
  have r: "loader_raises demo_env scan_png"
    by (simp add: loader_raises_def demo_env_def scan_png_def)
  have s: "saves demo_env notes_txt"
    by (simp add: saves_def demo_env_def)
  have l: "loader_returns demo_env notes_txt"
    by (simp add: loader_returns_def demo_env_def notes_txt_def)
  have n: "name scan_png = ''scan.png''" "name notes_txt = ''notes.txt''"
    by (simp_all add: scan_png_def notes_txt_def)
  have m: "scan_png \<in> set [scan_png, notes_txt]" "notes_txt \<in> set [scan_png, notes_txt]"
    by simp_all
  note t = per_file_failure_does_not_abort [of demo_env "[scan_png, notes_txt]" fresh_world]
  from t n have 1: "List.map_filter outcome_file
     (statuses (process_documents demo_env [scan_png, notes_txt] fresh_world)) =
     [''scan.png'', ''notes.txt'']" by simp
  from t [THEN conjunct2, THEN conjunct1] m(1) r n(1)
  have 2: "\<exists>e. ErrorLoading ''scan.png'' e \<in>
      set (statuses (process_documents demo_env [scan_png, notes_txt] fresh_world))"
    by auto
  from t [THEN conjunct2, THEN conjunct2, THEN conjunct1] m(2) s
  have 3: "\<exists>p. FileLoad (loader_for demo_env notes_txt p) \<in>
      set (calls (final (process_documents demo_env [scan_png, notes_txt] fresh_world)))"
    by auto
  from t [THEN conjunct2, THEN conjunct2, THEN conjunct2, THEN conjunct1] m(2) s l n(2)
  have 4: "\<exists>p docs. load demo_env (loader_for demo_env notes_txt p) (getvalue notes_txt) = Inr docs \<and>
      Loaded ''notes.txt'' (length docs) \<in>
        set (statuses (process_documents demo_env [scan_png, notes_txt] fresh_world)) \<and>
      set docs \<subseteq> set (all_docs (after_loading demo_env [scan_png, notes_txt] fresh_world))"
    by auto
  from r s l m 1 2 3 4 show ?thesis by simp
qed

end
